theory Spec2Isabelle
  imports Main
begin

section \<open>Junior church attendance ETL: batch export and incremental load\<close>

text \<open>
  Two Python programs are embedded here.
  \<^item> \<^verbatim>\<open>export_to_csv.py\<close> (batch mode): a script that reads every sheet of a workbook,
    deduplicates parents and children in memory and emits one attendance record per
    checked-in child slot.
  \<^item> \<^verbatim>\<open>proposed_workflow/etl_pipeline.py\<close> (incremental mode): \<^verbatim>\<open>process_attendance\<close>
    walks the submissions of a form and finds or creates each parent and child in a
    PostgreSQL store, then inserts attendance with \<^verbatim>\<open>ON CONFLICT DO NOTHING\<close>.

  A spreadsheet cell, as pandas hands it to the code, is an empty cell (the float NaN),
  a text, a whole number read as an integer (\<open>Num\<close>), or a whole number read as a float
  (\<open>Flt\<close>: what a numeric column that also has empty cells gives). A row maps the labels
  of the columns that exist to cells; a label the sheet does not have is \<open>None\<close>. Texts are
  byte strings and the character functions below cover ASCII. Floats with a fractional
  part, and floats so large that Python prints them with an exponent, are not modelled.
\<close>

subsection \<open>Cells, rows and the Python built-ins the code applies to them\<close>

datatype cell = NaN | Str string | Num int | Flt int

type_synonym row = "string \<rightharpoonup> cell"

datatype py_error = ValueError | KeyError

definition row_get :: "row \<Rightarrow> string \<Rightarrow> cell \<Rightarrow> cell" where
  \<comment> \<open>\<^verbatim>\<open>row.get(label, default)\<close>: the default only stands in for a missing label.\<close>
  "row_get r label dflt = (case r label of None \<Rightarrow> dflt | Some c \<Rightarrow> c)"

definition isna :: "cell option \<Rightarrow> bool" where
  \<comment> \<open>\<^verbatim>\<open>pd.isna(row.get(label))\<close>: true of Python's None and of NaN.\<close>
  "isna v = (case v of None \<Rightarrow> True | Some NaN \<Rightarrow> True | Some _ \<Rightarrow> False)"

definition digit_char :: "nat \<Rightarrow> char" where
  "digit_char d = ''0123456789'' ! d"

function str_nat :: "nat \<Rightarrow> string" where
  "str_nat n = (if n < 10 then [digit_char n] else str_nat (n div 10) @ [digit_char (n mod 10)])"
  by pat_completeness auto
termination
  by (relation "measure id") auto

declare str_nat.simps [simp del]

definition str_int :: "int \<Rightarrow> string" where
  "str_int i = (if i < 0 then CHR ''-'' # str_nat (nat (- i)) else str_nat (nat i))"

definition py_str :: "cell \<Rightarrow> string" where
  \<comment> \<open>\<^verbatim>\<open>str(x)\<close>: an empty cell prints as the three letters \<^verbatim>\<open>nan\<close>, a whole float
      with a trailing \<^verbatim>\<open>.0\<close>.\<close>
  "py_str c =
     (case c of
        NaN \<Rightarrow> ''nan''
      | Str s \<Rightarrow> s
      | Num n \<Rightarrow> str_int n
      | Flt n \<Rightarrow> str_int n @ ''.0'')"

definition is_space :: "char \<Rightarrow> bool" where
  "is_space c = (c \<in> set [CHR '' '', CHR 0x09, CHR 0x0A, CHR 0x0B, CHR 0x0C, CHR 0x0D,
                           CHR 0x1C, CHR 0x1D, CHR 0x1E, CHR 0x1F])"

definition strip :: "string \<Rightarrow> string" where
  "strip s = rev (dropWhile is_space (rev (dropWhile is_space s)))"

definition upper_char :: "char \<Rightarrow> char" where
  "upper_char c =
     (case map_of (zip ''abcdefghijklmnopqrstuvwxyz'' ''ABCDEFGHIJKLMNOPQRSTUVWXYZ'') c of
        None \<Rightarrow> c | Some u \<Rightarrow> u)"

definition upper :: "string \<Rightarrow> string" where
  "upper s = map upper_char s"

definition is_digit :: "char \<Rightarrow> bool" where
  "is_digit c = (c \<in> set ''0123456789'')"

definition digit_val :: "char \<Rightarrow> nat" where
  "digit_val c = (case map_of (zip ''0123456789'' [0 ..< 10]) c of None \<Rightarrow> 0 | Some d \<Rightarrow> d)"

fun digits_ok :: "string \<Rightarrow> bool" where
  "digits_ok [] = False"
| "digits_ok [c] = is_digit c"
| "digits_ok (c # d # cs) =
     (is_digit c \<and> (if d = CHR ''_'' then digits_ok cs else digits_ok (d # cs)))"

definition nat_of_digits :: "string \<Rightarrow> nat" where
  "nat_of_digits ds = foldl (\<lambda>acc c. 10 * acc + digit_val c) 0 (filter is_digit ds)"

definition parse_int :: "string \<Rightarrow> int option" where
  \<comment> \<open>\<^verbatim>\<open>int(s)\<close> on a text: surrounding whitespace, one optional sign, then decimal
      digits with single underscores allowed between them.\<close>
  "parse_int s =
     (case strip s of
        [] \<Rightarrow> None
      | c # cs \<Rightarrow>
          if c = CHR ''-'' then (if digits_ok cs then Some (- int (nat_of_digits cs)) else None)
          else if c = CHR ''+'' then (if digits_ok cs then Some (int (nat_of_digits cs)) else None)
          else if digits_ok (c # cs) then Some (int (nat_of_digits (c # cs))) else None)"

definition py_int :: "cell \<Rightarrow> py_error + int" where
  \<comment> \<open>\<^verbatim>\<open>int(x)\<close>: raises ValueError on NaN and on a text that is not a number.\<close>
  "py_int c =
     (case c of
        NaN \<Rightarrow> Inl ValueError
      | Num n \<Rightarrow> Inr n
      | Flt n \<Rightarrow> Inr n
      | Str s \<Rightarrow> (case parse_int s of None \<Rightarrow> Inl ValueError | Some n \<Rightarrow> Inr n))"

definition truthy :: "cell \<Rightarrow> bool" where
  \<comment> \<open>Python truth value: NaN is a non-zero float, hence true.\<close>
  "truthy c =
     (case c of NaN \<Rightarrow> True | Str s \<Rightarrow> s \<noteq> [] | Num n \<Rightarrow> n \<noteq> 0 | Flt n \<Rightarrow> n \<noteq> 0)"

subsection \<open>Incremental mode: the store behind \<^verbatim>\<open>process_attendance\<close>\<close>

text \<open>
  The three tables hold the columns the SQL of \<^verbatim>\<open>etl_pipeline.py\<close> names. A table is
  the list of its rows in insertion order; \<^verbatim>\<open>fetchone()\<close> after a \<^verbatim>\<open>SELECT\<close> yields the
  first matching row. The two keys the \<^verbatim>\<open>INSERT ... RETURNING\<close> statements get back are
  drawn from a sequence per table, as a serial column does. The state the cursor works
  on also records whether the open transaction has failed: once a statement has raised,
  PostgreSQL refuses every further statement until the transaction ends. The attendance
  date is of an arbitrary type \<open>'d\<close>.

  The definitions of this subsection say what each statement does when the store runs
  it. Which statements the store refuses is decided where \<^verbatim>\<open>cursor.execute\<close> is called,
  in the next subsection.
\<close>

record parents_row =
  p_parent_id :: nat
  p_full_name :: string
  p_phone_number :: string
  p_gender :: string

record children_row =
  c_child_id :: nat
  c_parent_id :: nat
  c_full_name :: string
  c_age :: int
  c_gender :: string

record 'd attendance_row =
  a_child_id :: nat
  a_service_name :: string
  a_attendance_date :: 'd
  a_was_present :: bool

record 'd store =
  parents :: "parents_row list"
  children :: "children_row list"
  attendance :: "'d attendance_row list"
  parent_id_seq :: nat
  child_id_seq :: nat
  aborted :: bool

record stats =
  total_submissions :: nat
  new_parents :: nat
  existing_parents :: nat
  new_children :: nat
  existing_children :: nat
  attendance_recorded :: nat
  errors :: nat

definition empty_store :: "'d store" where
  "empty_store =
     \<lparr>parents = [], children = [], attendance = [], parent_id_seq = 1, child_id_seq = 1,
      aborted = False\<rparr>"

definition select_parent :: "'d store \<Rightarrow> string \<Rightarrow> nat option" where
  \<comment> \<open>\<^verbatim>\<open>SELECT parent_id FROM parents WHERE phone_number = %s\<close>, then \<^verbatim>\<open>fetchone()\<close>.\<close>
  "select_parent s phone =
     map_option p_parent_id (find (\<lambda>p. p_phone_number p = phone) (parents s))"

definition insert_parent :: "'d store \<Rightarrow> string \<Rightarrow> string \<Rightarrow> string \<Rightarrow> nat \<times> 'd store" where
  \<comment> \<open>\<^verbatim>\<open>INSERT INTO parents (full_name, phone_number, gender) ... RETURNING parent_id\<close>.\<close>
  "insert_parent s name phone gender =
     (parent_id_seq s,
      s\<lparr>parents := parents s @
            [\<lparr>p_parent_id = parent_id_seq s, p_full_name = name,
              p_phone_number = phone, p_gender = gender\<rparr>],
        parent_id_seq := parent_id_seq s + 1\<rparr>)"

definition select_child :: "'d store \<Rightarrow> nat \<Rightarrow> string \<Rightarrow> int \<Rightarrow> nat option" where
  \<comment> \<open>\<^verbatim>\<open>SELECT child_id FROM children WHERE parent_id = %s AND UPPER(full_name) = UPPER(%s)
      AND age = %s\<close>, then \<^verbatim>\<open>fetchone()\<close>.\<close>
  "select_child s pid name age =
     map_option c_child_id
       (find (\<lambda>c. c_parent_id c = pid \<and> upper (c_full_name c) = upper name \<and> c_age c = age)
          (children s))"

definition insert_child :: "'d store \<Rightarrow> nat \<Rightarrow> string \<Rightarrow> int \<Rightarrow> string \<Rightarrow> nat \<times> 'd store" where
  \<comment> \<open>\<^verbatim>\<open>INSERT INTO children (parent_id, full_name, age, gender) ... RETURNING child_id\<close>.\<close>
  "insert_child s pid name age gender =
     (child_id_seq s,
      s\<lparr>children := children s @
            [\<lparr>c_child_id = child_id_seq s, c_parent_id = pid, c_full_name = name,
              c_age = age, c_gender = gender\<rparr>],
        child_id_seq := child_id_seq s + 1\<rparr>)"

definition attendance_conflict :: "'d store \<Rightarrow> nat \<Rightarrow> string \<Rightarrow> 'd \<Rightarrow> bool" where
  "attendance_conflict s cid service d =
     (\<exists>a \<in> set (attendance s).
        a_child_id a = cid \<and> a_service_name a = service \<and> a_attendance_date a = d)"

definition insert_attendance :: "'d store \<Rightarrow> nat \<Rightarrow> string \<Rightarrow> 'd \<Rightarrow> 'd store \<times> nat" where
  \<comment> \<open>\<^verbatim>\<open>INSERT INTO attendance (child_id, service_name, attendance_date, was_present)
      VALUES (%s, %s, %s, TRUE) ON CONFLICT (child_id, service_name, attendance_date)
      DO NOTHING\<close>; the second component is \<^verbatim>\<open>cursor.rowcount\<close>.\<close>
  "insert_attendance s cid service d =
     (if attendance_conflict s cid service d then (s, 0)
      else (s\<lparr>attendance := attendance s @
                 [\<lparr>a_child_id = cid, a_service_name = service,
                   a_attendance_date = d, a_was_present = True\<rparr>]\<rparr>, 1))"

subsection \<open>Incremental mode: \<^verbatim>\<open>process_attendance\<close>\<close>

text \<open>
  Every \<^verbatim>\<open>cursor.execute\<close> can raise. The schema is not part of the source, so which
  statements the store refuses for the values they carry (a type, a range, a length or
  a check constraint) is a parameter \<open>rejects\<close> of the model. A statement also raises when
  the transaction has already failed. The handler of the row loop (lines 196 to 199)
  catches the exception and goes on to the next row without a rollback, so from the
  first refused statement on the transaction stays in the failed state. A refusal that
  would depend on the rows already stored (a key other than the attendance key that
  \<^verbatim>\<open>ON CONFLICT\<close> names) and a lost connection are not covered.
\<close>

datatype 'd statement =
    SelectParent string
  | InsertParent string string string
  | SelectChild nat string int
  | InsertChild nat string int string
  | InsertAttendance nat string 'd

datatype 'a outcome = Raised (state_of: 'a) | Done (state_of: 'a)

definition execute_raises :: "('d statement \<Rightarrow> bool) \<Rightarrow> 'd store \<Rightarrow> 'd statement \<Rightarrow> bool" where
  \<comment> \<open>whether \<^verbatim>\<open>cursor.execute\<close> of the statement raises in this state\<close>
  "execute_raises rejects s q = (aborted s \<or> rejects q)"

definition failed :: "'d store \<Rightarrow> 'd store" where
  \<comment> \<open>the state after a statement has raised: nothing written, the transaction failed\<close>
  "failed s = s\<lparr>aborted := True\<rparr>"

definition valid_gender :: "string \<Rightarrow> string" where
  \<comment> \<open>\<^verbatim>\<open>if gender not in ['Male', 'Female']: gender = 'Male'\<close>\<close>
  "valid_gender g = (if g \<in> set [''Male'', ''Female''] then g else ''Male'')"

definition child_label :: "nat \<Rightarrow> string \<Rightarrow> string" where
  \<comment> \<open>the f-string \<^verbatim>\<open>f"Child {child_num} ..."\<close>\<close>
  "child_label child_num suffix = ''Child '' @ str_nat child_num @ suffix"

definition clean_age :: "cell \<Rightarrow> int" where
  \<comment> \<open>\<^verbatim>\<open>try: int(child_age) if not pd.isna(child_age) else 0\<close>, \<^verbatim>\<open>except: 0\<close>\<close>
  "clean_age c =
     (if isna (Some c) then 0 else (case py_int c of Inl _ \<Rightarrow> 0 | Inr n \<Rightarrow> n))"

definition resolve_parent ::
  "'d store \<Rightarrow> stats \<Rightarrow> string \<Rightarrow> string \<Rightarrow> string \<Rightarrow> nat \<times> 'd store \<times> stats" where
  \<comment> \<open>PARENT: find or create (lines 97 to 120), when its statements run\<close>
  "resolve_parent s st parent_name parent_phone parent_gender =
     (case select_parent s parent_phone of
        Some pid \<Rightarrow> (pid, s, st\<lparr>existing_parents := existing_parents st + 1\<rparr>)
      | None \<Rightarrow>
          (let (pid, s') = insert_parent s parent_name parent_phone parent_gender
           in (pid, s', st\<lparr>new_parents := new_parents st + 1\<rparr>)))"

definition resolve_parent_raises ::
  "('d statement \<Rightarrow> bool) \<Rightarrow> 'd store \<Rightarrow> string \<Rightarrow> string \<Rightarrow> string \<Rightarrow> bool" where
  \<comment> \<open>one of the statements of lines 97 to 118 raises: the \<^verbatim>\<open>SELECT\<close>, or the \<^verbatim>\<open>INSERT\<close>
      that follows a \<^verbatim>\<open>SELECT\<close> with no result\<close>
  "resolve_parent_raises rejects s parent_name parent_phone parent_gender =
     (execute_raises rejects s (SelectParent parent_phone) \<or>
      (select_parent s parent_phone = None \<and>
       execute_raises rejects s (InsertParent parent_name parent_phone parent_gender)))"

definition resolve_child ::
  "'d store \<Rightarrow> stats \<Rightarrow> nat \<Rightarrow> string \<Rightarrow> int \<Rightarrow> string \<Rightarrow> nat \<times> 'd store \<times> stats" where
  \<comment> \<open>CHILD: find or create (lines 147 to 175), when its statements run\<close>
  "resolve_child s st parent_id child_name child_age child_gender =
     (case select_child s parent_id child_name child_age of
        Some cid \<Rightarrow> (cid, s, st\<lparr>existing_children := existing_children st + 1\<rparr>)
      | None \<Rightarrow>
          (let (cid, s') = insert_child s parent_id child_name child_age child_gender
           in (cid, s', st\<lparr>new_children := new_children st + 1\<rparr>)))"

definition resolve_child_raises ::
  "('d statement \<Rightarrow> bool) \<Rightarrow> 'd store \<Rightarrow> nat \<Rightarrow> string \<Rightarrow> int \<Rightarrow> string \<Rightarrow> bool" where
  \<comment> \<open>one of the statements of lines 147 to 173 raises\<close>
  "resolve_child_raises rejects s parent_id child_name child_age child_gender =
     (execute_raises rejects s (SelectChild parent_id child_name child_age) \<or>
      (select_child s parent_id child_name child_age = None \<and>
       execute_raises rejects s (InsertChild parent_id child_name child_age child_gender)))"

definition record_attendance ::
  "'d store \<Rightarrow> stats \<Rightarrow> nat \<Rightarrow> string \<Rightarrow> 'd \<Rightarrow> 'd store \<times> stats" where
  \<comment> \<open>ATTENDANCE: record (lines 179 to 193), when its statement runs\<close>
  "record_attendance s st child_id service_name attendance_date =
     (let (s', rowcount) = insert_attendance s child_id service_name attendance_date
      in if rowcount > 0 then (s', st\<lparr>attendance_recorded := attendance_recorded st + 1\<rparr>)
         else (s', st))"

definition process_child ::
  "('d statement \<Rightarrow> bool) \<Rightarrow> 'd \<Rightarrow> row \<Rightarrow> nat \<Rightarrow> nat \<Rightarrow> 'd store \<times> stats
     \<Rightarrow> ('d store \<times> stats) outcome" where
  \<comment> \<open>One turn of \<^verbatim>\<open>for child_num in range(1, 4)\<close> (lines 124 to 193). \<open>Raised\<close> holds the
      state in which an exception left the turn: the counters as they stood, the
      transaction failed.\<close>
  "process_child rejects attendance_date r parent_id child_num acc =
     (let (s, st) = acc;
          child_name = strip (py_str (row_get r (child_label child_num '' Name'') (Str '''')))
      in if child_name = [] then Done (s, st)
         else
           (let child_age = clean_age (row_get r (child_label child_num '' Age'') (Num 0));
                child_gender = valid_gender
                  (strip (py_str (row_get r (child_label child_num '' Gender'') (Str ''Male''))));
                service_name = strip (py_str (row_get r ''Which Service'' (Str ''First Service'')))
            in if resolve_child_raises rejects s parent_id child_name child_age child_gender
               then Raised (failed s, st)
               else
                 (let (child_id, s1, st1) =
                        resolve_child s st parent_id child_name child_age child_gender
                  in if execute_raises rejects s1
                          (InsertAttendance child_id service_name attendance_date)
                     then Raised (failed s1, st1)
                     else Done (record_attendance s1 st1 child_id service_name attendance_date))))"

fun run_children :: "(nat \<Rightarrow> 'a \<Rightarrow> 'a outcome) \<Rightarrow> nat list \<Rightarrow> 'a \<Rightarrow> 'a outcome" where
  \<comment> \<open>the loop over the child slots: an exception in one turn leaves the loop\<close>
  "run_children turn [] acc = Done acc"
| "run_children turn (n # ns) acc =
     (case turn n acc of Raised a \<Rightarrow> Raised a | Done a \<Rightarrow> run_children turn ns a)"

definition row_date :: "(cell \<Rightarrow> 'd option) \<Rightarrow> 'd \<Rightarrow> row \<Rightarrow> 'd option" where
  \<comment> \<open>Lines 88 to 92. \<open>to_date c\<close> stands for \<^verbatim>\<open>pd.to_datetime(c).date()\<close>, \<open>None\<close> when it
      raises; \<open>today\<close> stands for \<^verbatim>\<open>date.today()\<close>.\<close>
  "row_date to_date today r =
     (let timestamp = row_get r ''Timestamp'' (Str '''')
      in if truthy timestamp then to_date timestamp else Some today)"

definition process_row ::
  "('d statement \<Rightarrow> bool) \<Rightarrow> (cell \<Rightarrow> 'd option) \<Rightarrow> 'd \<Rightarrow> row \<Rightarrow> 'd store \<times> stats
     \<Rightarrow> 'd store \<times> stats" where
  \<comment> \<open>The body of \<^verbatim>\<open>for idx, row in df.iterrows()\<close> with its \<^verbatim>\<open>try\<close> and \<^verbatim>\<open>except\<close>
      (lines 71 to 199): whatever raises, the handler counts one error and the loop
      goes on.\<close>
  "process_row rejects to_date today r acc =
     (let (s, st) = acc;
          parent_name = strip (py_str (row_get r ''Your Name'' (Str '''')));
          parent_phone = strip (py_str (row_get r ''Your Phone'' (Str '''')));
          parent_gender = strip (py_str (row_get r ''Your Gender'' (Str ''Male'')))
      in if parent_phone = [] \<or> parent_name = [] then (s, st\<lparr>errors := errors st + 1\<rparr>)
         else
           (case row_date to_date today r of
              None \<Rightarrow> (s, st\<lparr>errors := errors st + 1\<rparr>)
            | Some attendance_date \<Rightarrow>
                if resolve_parent_raises rejects s parent_name parent_phone
                     (valid_gender parent_gender)
                then (failed s, st\<lparr>errors := errors st + 1\<rparr>)
                else
                  (let (parent_id, s1, st1) =
                         resolve_parent s st parent_name parent_phone (valid_gender parent_gender)
                   in case run_children (process_child rejects attendance_date r parent_id)
                             [1 ..< 4] (s1, st1) of
                        Raised (s2, st2) \<Rightarrow> (s2, st2\<lparr>errors := errors st2 + 1\<rparr>)
                      | Done a \<Rightarrow> a)))"

definition init_stats :: "row list \<Rightarrow> stats" where
  "init_stats df =
     \<lparr>total_submissions = length df, new_parents = 0, existing_parents = 0, new_children = 0,
      existing_children = 0, attendance_recorded = 0, errors = 0\<rparr>"

definition process_rows ::
  "('d statement \<Rightarrow> bool) \<Rightarrow> (cell \<Rightarrow> 'd option) \<Rightarrow> 'd \<Rightarrow> row list \<Rightarrow> 'd store
     \<Rightarrow> 'd store \<times> stats" where
  \<comment> \<open>the whole loop over \<^verbatim>\<open>df\<close>, from fresh statistics\<close>
  "process_rows rejects to_date today df s =
     fold (process_row rejects to_date today) df (s, init_stats df)"

text \<open>
  The connection runs one transaction for the whole call: every statement of the loop
  acts on the working state, and the only \<^verbatim>\<open>conn.commit()\<close> stands after the loop
  (line 201). What the store keeps if the process stops is the committed state.
  Committing a failed transaction rolls it back: the tables return to the committed
  state, while the sequences keep the values they have reached.
\<close>

record 'd connection =
  committed :: "'d store"
  working :: "'d store"

definition rolled_back :: "'d connection \<Rightarrow> 'd store" where
  "rolled_back conn =
     (committed conn)\<lparr>parent_id_seq := parent_id_seq (working conn),
                      child_id_seq := child_id_seq (working conn), aborted := False\<rparr>"

definition commit :: "'d connection \<Rightarrow> 'd connection" where
  \<comment> \<open>\<^verbatim>\<open>conn.commit()\<close>; the next transaction starts from what was committed\<close>
  "commit conn =
     (if aborted (working conn)
      then \<lparr>committed = rolled_back conn, working = rolled_back conn\<rparr>
      else \<lparr>committed = working conn, working = working conn\<rparr>)"

definition run_loop ::
  "('d statement \<Rightarrow> bool) \<Rightarrow> (cell \<Rightarrow> 'd option) \<Rightarrow> 'd \<Rightarrow> row list \<Rightarrow> stats \<Rightarrow> 'd connection
     \<Rightarrow> 'd connection \<times> stats" where
  \<comment> \<open>the loop on the rows \<open>df\<close>, statements sent and nothing committed yet\<close>
  "run_loop rejects to_date today df st conn =
     (let (w, st') = fold (process_row rejects to_date today) df (working conn, st)
      in (conn\<lparr>working := w\<rparr>, st'))"

definition process_attendance ::
  "('d statement \<Rightarrow> bool) \<Rightarrow> (cell \<Rightarrow> 'd option) \<Rightarrow> 'd \<Rightarrow> row list \<Rightarrow> 'd connection
     \<Rightarrow> 'd connection \<times> stats" where
  "process_attendance rejects to_date today df conn =
     (let (conn', st) = run_loop rejects to_date today df (init_stats df) conn
      in (commit conn', st))"

subsection \<open>Batch mode: \<^verbatim>\<open>export_to_csv.py\<close>\<close>

text \<open>
  A workbook is the list of its sheets in order, each a name and its rows. Every sheet
  carries the nine parent columns the script selects by name; the child and check-in
  columns are read with \<^verbatim>\<open>row.get\<close> and may be missing. The \<^verbatim>\<open>ID\<close> column holds whole
  numbers, \<open>None\<close> standing for an empty \<^verbatim>\<open>ID\<close> cell (NaN). A Python exception ends the
  script: the result is then \<open>Inl\<close> of the error and no file is written.
\<close>

record sheet_row =
  ID :: "int option"
  Full_Name :: cell
  Email :: cell
  Gender :: cell
  Role_In_Church :: cell
  Department_In_Church :: cell
  Phone_Number :: cell
  Secondary_Phone_Number :: cell
  Address :: cell
  cols :: row

type_synonym sheets = "(string \<times> sheet_row list) list"

definition ATTENDANCE_DATE :: string where
  "ATTENDANCE_DATE = ''2026-01-26''"

record parent_rec =
  parent_id :: nat
  original_id :: "int option"
  full_name :: cell
  email :: cell
  gender :: cell
  role_in_church :: cell
  department_in_church :: cell
  phone_number :: string
  secondary_phone_number :: string
  address :: cell

record child_record =
  cr_parent_id :: nat
  cr_full_name :: string
  cr_age :: int
  cr_gender :: string
  cr_special_needs :: "string option"
  cr_relationship_to_parent :: string
  cr_dedupe_key :: string

record child_row =
  child_id :: nat
  ch_parent_id :: nat
  ch_full_name :: string
  ch_age :: int
  ch_gender :: string
  ch_special_needs :: "string option"
  ch_relationship_to_parent :: string

record attendance_record =
  ar_child_id :: nat
  ar_service_name :: string
  ar_attendance_date :: string
  ar_check_in_time :: "string option"
  ar_check_out_time :: "string option"
  ar_was_present :: bool

record attendance_df_row = attendance_record +
  attendance_id :: nat

record export =
  unique_parents :: "parent_rec list"
  children_unique :: "child_row list"
  attendance_df :: "attendance_df_row list"

fun drop_duplicates :: "('a \<Rightarrow> 'k) \<Rightarrow> 'a list \<Rightarrow> 'a list" where
  \<comment> \<open>\<^verbatim>\<open>df.drop_duplicates(subset=[key], keep='first')\<close>\<close>
  "drop_duplicates key [] = []"
| "drop_duplicates key (x # xs) = x # drop_duplicates key (filter (\<lambda>y. key y \<noteq> key x) xs)"

fun collect :: "('a \<Rightarrow> py_error + 'b list) \<Rightarrow> 'a list \<Rightarrow> py_error + 'b list" where
  \<comment> \<open>a \<^verbatim>\<open>for\<close> loop whose body appends records to a list; the first exception ends it\<close>
  "collect body [] = Inr []"
| "collect body (x # xs) =
     (case body x of
        Inl e \<Rightarrow> Inl e
      | Inr ys \<Rightarrow> (case collect body xs of Inl e \<Rightarrow> Inl e | Inr zs \<Rightarrow> Inr (ys @ zs)))"

definition py_str_opt :: "cell option \<Rightarrow> string" where
  \<comment> \<open>\<^verbatim>\<open>str(row.get(label))\<close>, where a missing label gives Python's None\<close>
  "py_str_opt v = (case v of None \<Rightarrow> ''None'' | Some c \<Rightarrow> py_str c)"

definition combined_df :: "sheets \<Rightarrow> sheet_row list" where
  \<comment> \<open>\<^verbatim>\<open>pd.concat(all_data, ignore_index=True)\<close>\<close>
  "combined_df sheets = concat (map snd sheets)"

definition clean_phone :: "cell \<Rightarrow> string" where
  \<comment> \<open>\<^verbatim>\<open>.astype(str).replace('nan', '')\<close>\<close>
  "clean_phone c = (if py_str c = ''nan'' then [] else py_str c)"

definition fillna_empty :: "cell \<Rightarrow> cell" where
  \<comment> \<open>\<^verbatim>\<open>.fillna('')\<close>\<close>
  "fillna_empty c = (case c of NaN \<Rightarrow> Str [] | _ \<Rightarrow> c)"

definition to_parent :: "nat \<times> sheet_row \<Rightarrow> parent_rec" where
  "to_parent ir =
     (case ir of (i, r) \<Rightarrow>
        \<lparr>parent_id = i, original_id = ID r, full_name = Full_Name r,
         email = fillna_empty (Email r), gender = Gender r,
         role_in_church = Role_In_Church r, department_in_church = Department_In_Church r,
         phone_number = clean_phone (Phone_Number r),
         secondary_phone_number = clean_phone (Secondary_Phone_Number r),
         address = Address r\<rparr>)"

definition sort_by_id :: "sheet_row list \<Rightarrow> sheet_row list" where
  \<comment> \<open>\<^verbatim>\<open>sort_values('original_id')\<close>: ascending, an empty id last\<close>
  "sort_by_id rs =
     sort_key (\<lambda>r. case ID r of None \<Rightarrow> 0 | Some i \<Rightarrow> i) (filter (\<lambda>r. ID r \<noteq> None) rs)
       @ filter (\<lambda>r. ID r = None) rs"

definition make_unique_parents :: "sheets \<Rightarrow> parent_rec list" where
  \<comment> \<open>STEP 1 (lines 31 to 50): first row per \<^verbatim>\<open>ID\<close>, sorted, numbered from 1\<close>
  "make_unique_parents sheets =
     map to_parent (enumerate 1 (sort_by_id (drop_duplicates ID (combined_df sheets))))"

definition make_parent_mapping :: "parent_rec list \<Rightarrow> (int option \<rightharpoonup> nat)" where
  \<comment> \<open>\<^verbatim>\<open>dict(zip(unique_parents['original_id'], unique_parents['parent_id']))\<close>\<close>
  "make_parent_mapping ups = fold (\<lambda>p m. m(original_id p \<mapsto> parent_id p)) ups Map.empty"

definition mapping_get :: "(int option \<rightharpoonup> nat) \<Rightarrow> int option \<Rightarrow> nat option" where
  \<comment> \<open>\<^verbatim>\<open>parent_mapping.get(row['ID'])\<close>: a NaN is equal to no key, not even to the NaN
      the dictionary holds, so an empty id finds no parent.\<close>
  "mapping_get m oid = (case oid of None \<Rightarrow> None | Some i \<Rightarrow> m (Some i))"

definition slot_label :: "string \<Rightarrow> nat \<Rightarrow> string" where
  \<comment> \<open>the f-strings \<^verbatim>\<open>f'Full Name of Child {child_num}'\<close>, \<^verbatim>\<open>f'Age of Child {child_num}'\<close>, ...\<close>
  "slot_label prefix child_num = prefix @ str_nat child_num"

definition slot_age :: "row \<Rightarrow> nat \<Rightarrow> py_error + int" where
  \<comment> \<open>\<^verbatim>\<open>int(row.get(label, 0)) if not pd.isna(row.get(label)) else 0\<close>\<close>
  "slot_age r child_num =
     (let label = slot_label ''Age of Child '' child_num
      in if isna (r label) then Inr 0 else py_int (row_get r label (Num 0)))"

definition make_key :: "nat \<Rightarrow> string \<Rightarrow> int \<Rightarrow> string" where
  \<comment> \<open>\<^verbatim>\<open>f"{parent_id}_{NAME}_{child_age}"\<close>\<close>
  "make_key pid name age = str_nat pid @ ''_'' @ name @ ''_'' @ str_int age"

definition child_slot :: "nat \<Rightarrow> row \<Rightarrow> nat \<Rightarrow> py_error + child_record list" where
  \<comment> \<open>one turn of \<^verbatim>\<open>for child_num in range(1, 4)\<close> in STEP 2 (lines 70 to 87)\<close>
  "child_slot pid r child_num =
     (let child_name = r (slot_label ''Full Name of Child '' child_num)
      in if isna child_name \<or> strip (py_str_opt child_name) = [] then Inr []
         else
           (case slot_age r child_num of
              Inl e \<Rightarrow> Inl e
            | Inr child_age \<Rightarrow>
                Inr [\<lparr>cr_parent_id = pid,
                      cr_full_name = strip (py_str_opt child_name),
                      cr_age = child_age,
                      cr_gender = strip (py_str
                        (row_get r (slot_label ''Gender of Child '' child_num) (Str ''Unknown''))),
                      cr_special_needs =
                        (if isna (r (slot_label ''Special Needs of Child '' child_num)) then None
                         else Some (strip (py_str_opt
                           (r (slot_label ''Special Needs of Child '' child_num))))),
                      cr_relationship_to_parent =
                        (if isna (r (slot_label ''Relationship With Child '' child_num))
                         then ''Child''
                         else strip (py_str_opt
                           (r (slot_label ''Relationship With Child '' child_num)))),
                      cr_dedupe_key = make_key pid (upper (strip (py_str_opt child_name))) child_age\<rparr>]))"

definition children_of_row :: "(int option \<rightharpoonup> nat) \<Rightarrow> sheet_row \<Rightarrow> py_error + child_record list" where
  \<comment> \<open>the body of \<^verbatim>\<open>for _, row in df.iterrows()\<close> in STEP 2 (lines 63 to 87)\<close>
  "children_of_row parent_mapping r =
     (case mapping_get parent_mapping (ID r) of
        None \<Rightarrow> Inr []
      | Some pid \<Rightarrow> collect (child_slot pid (cols r)) [1 ..< 4])"

definition make_all_children :: "(int option \<rightharpoonup> nat) \<Rightarrow> sheets \<Rightarrow> py_error + child_record list" where
  "make_all_children parent_mapping sheets =
     collect (\<lambda>sheet. collect (children_of_row parent_mapping) (snd sheet)) sheets"

definition to_child_row :: "nat \<times> child_record \<Rightarrow> child_row" where
  \<comment> \<open>the \<^verbatim>\<open>dedupe_key\<close> column dropped, \<^verbatim>\<open>child_id\<close> put in front\<close>
  "to_child_row ic =
     (case ic of (i, c) \<Rightarrow>
        \<lparr>child_id = i, ch_parent_id = cr_parent_id c, ch_full_name = cr_full_name c,
         ch_age = cr_age c, ch_gender = cr_gender c, ch_special_needs = cr_special_needs c,
         ch_relationship_to_parent = cr_relationship_to_parent c\<rparr>)"

definition make_children_unique :: "child_record list \<Rightarrow> py_error + child_row list" where
  \<comment> \<open>Lines 89 to 95. With no child record at all the frame has no columns, and dropping
      the \<^verbatim>\<open>dedupe_key\<close> column raises KeyError.\<close>
  "make_children_unique all_children =
     (if all_children = [] then Inl KeyError
      else Inr (map to_child_row (enumerate 1 (drop_duplicates cr_dedupe_key all_children))))"

definition make_child_lookup :: "child_row list \<Rightarrow> (string \<rightharpoonup> nat)" where
  \<comment> \<open>the reverse mapping of lines 100 to 103\<close>
  "make_child_lookup cu =
     fold (\<lambda>child m. m(make_key (ch_parent_id child) (upper (ch_full_name child)) (ch_age child)
                          \<mapsto> child_id child)) cu Map.empty"

definition was_present :: "row \<Rightarrow> nat \<Rightarrow> bool" where
  \<comment> \<open>\<^verbatim>\<open>checkin_col in row and not pd.isna(row[checkin_col]) and row[checkin_col] == 1\<close>\<close>
  "was_present r child_num =
     (case r (''Child '' @ str_nat child_num @ '' (check-in)'') of
        None \<Rightarrow> False
      | Some c \<Rightarrow> \<not> isna (Some c) \<and> (c = Num 1 \<or> c = Flt 1))"

definition attendance_slot ::
  "(string \<rightharpoonup> nat) \<Rightarrow> string \<Rightarrow> nat \<Rightarrow> row \<Rightarrow> nat \<Rightarrow> py_error + attendance_record list" where
  \<comment> \<open>one turn of \<^verbatim>\<open>for child_num in range(1, 4)\<close> in STEP 3 (lines 122 to 156)\<close>
  "attendance_slot child_lookup service_name pid r child_num =
     (let child_name = r (slot_label ''Full Name of Child '' child_num)
      in if isna child_name \<or> strip (py_str_opt child_name) = [] then Inr []
         else
           (case slot_age r child_num of
              Inl e \<Rightarrow> Inl e
            | Inr child_age \<Rightarrow>
                (case child_lookup (make_key pid (upper (strip (py_str_opt child_name))) child_age) of
                   None \<Rightarrow> Inr []
                 | Some cid \<Rightarrow>
                     if was_present r child_num
                     then Inr [\<lparr>ar_child_id = cid, ar_service_name = service_name,
                                ar_attendance_date = ATTENDANCE_DATE, ar_check_in_time = None,
                                ar_check_out_time = None, ar_was_present = True\<rparr>]
                     else Inr [])))"

definition attendance_of_row ::
  "(int option \<rightharpoonup> nat) \<Rightarrow> (string \<rightharpoonup> nat) \<Rightarrow> string \<Rightarrow> sheet_row
     \<Rightarrow> py_error + attendance_record list" where
  "attendance_of_row parent_mapping child_lookup service_name r =
     (case mapping_get parent_mapping (ID r) of
        None \<Rightarrow> Inr []
      | Some pid \<Rightarrow> collect (attendance_slot child_lookup service_name pid (cols r)) [1 ..< 4])"

definition make_all_attendance ::
  "(int option \<rightharpoonup> nat) \<Rightarrow> (string \<rightharpoonup> nat) \<Rightarrow> sheets \<Rightarrow> py_error + attendance_record list" where
  \<comment> \<open>STEP 3: the sheet's name is the service name\<close>
  "make_all_attendance parent_mapping child_lookup sheets =
     collect (\<lambda>sheet. collect (attendance_of_row parent_mapping child_lookup (fst sheet)) (snd sheet))
       sheets"

definition number_attendance :: "attendance_record list \<Rightarrow> attendance_df_row list" where
  \<comment> \<open>\<^verbatim>\<open>attendance_df.insert(0, 'attendance_id', range(1, len(attendance_df) + 1))\<close>\<close>
  "number_attendance recs =
     map (\<lambda>ia. attendance_record.extend (snd ia) \<lparr>attendance_id = fst ia\<rparr>) (enumerate 1 recs)"

definition export_to_csv :: "sheets \<Rightarrow> py_error + export" where
  \<comment> \<open>The script from the loaded workbook to the three tables it writes. \<^verbatim>\<open>pd.concat\<close> of
      no sheet raises ValueError.\<close>
  "export_to_csv sheets =
     (if sheets = [] then Inl ValueError
      else
        (let ups = make_unique_parents sheets;
             parent_mapping = make_parent_mapping ups
         in case make_all_children parent_mapping sheets of
              Inl e \<Rightarrow> Inl e
            | Inr all_children \<Rightarrow>
                (case make_children_unique all_children of
                   Inl e \<Rightarrow> Inl e
                 | Inr cu \<Rightarrow>
                     (case make_all_attendance parent_mapping (make_child_lookup cu) sheets of
                        Inl e \<Rightarrow> Inl e
                      | Inr all_attendance \<Rightarrow>
                          Inr \<lparr>unique_parents = ups, children_unique = cu,
                               attendance_df = number_attendance all_attendance\<rparr>))))"

subsection \<open>Example inputs\<close>

definition ex_to_date :: "cell \<Rightarrow> string option" where
  \<comment> \<open>a date reader for the examples: the first ten characters of an ISO timestamp; an
      empty cell reads as the not-a-time value, as \<^verbatim>\<open>pd.to_datetime\<close> does\<close>
  "ex_to_date c =
     (case c of
        Str s \<Rightarrow> (if 10 \<le> length s then Some (take 10 s) else None)
      | NaN \<Rightarrow> Some ''NaT''
      | _ \<Rightarrow> None)"

definition ex_rejects :: "string statement \<Rightarrow> bool" where
  \<comment> \<open>a store for the examples: the attendance date column takes dates only, the age
      column 32-bit integers\<close>
  "ex_rejects q =
     (case q of
        InsertAttendance cid service d \<Rightarrow> d = ''NaT''
      | InsertChild pid name age g \<Rightarrow> age < - 2147483648 \<or> 2147483647 < age
      | _ \<Rightarrow> False)"

definition ex_conn :: "string connection" where
  "ex_conn = \<lparr>committed = empty_store, working = empty_store\<rparr>"

definition ex_today :: string where
  "ex_today = ''2026-02-01''"

definition ex_submission :: row where
  "ex_submission =
     [''Timestamp'' \<mapsto> Str ''2026-01-25 09:30:00'', ''Your Name'' \<mapsto> Str ''Ada Obi'',
      ''Your Phone'' \<mapsto> Str ''08012345678'', ''Your Gender'' \<mapsto> Str ''Female'',
      ''Which Service'' \<mapsto> Str ''First Service'',
      ''Child 1 Name'' \<mapsto> Str ''Jane Doe'', ''Child 1 Age'' \<mapsto> Num 8,
      ''Child 1 Gender'' \<mapsto> Str ''Female'']"

definition ex_family :: "int option \<Rightarrow> row \<Rightarrow> sheet_row" where
  "ex_family i c =
     \<lparr>ID = i, Full_Name = Str ''Ada Obi'', Email = NaN, Gender = Str ''Female'',
      Role_In_Church = Str ''Member'', Department_In_Church = NaN,
      Phone_Number = Str ''08012345678'', Secondary_Phone_Number = NaN, Address = NaN, cols = c\<rparr>"

definition ex_jane :: row where
  "ex_jane =
     [''Full Name of Child 1'' \<mapsto> Str ''Jane Doe'', ''Age of Child 1'' \<mapsto> Num 8,
      ''Gender of Child 1'' \<mapsto> Str ''Female'', ''Child 1 (check-in)'' \<mapsto> Num 1]"

definition ex_first_parent :: "nat \<times> string store \<times> stats" where
  "ex_first_parent =
     resolve_parent empty_store (init_stats []) ''Ada Obi'' ''08012345678'' ''Female''"

definition ex_first_child :: "nat \<times> string store \<times> stats" where
  "ex_first_child = resolve_child empty_store (init_stats []) 1 (strip '' Jane Doe'') 8 ''Female''"

definition ex_workbook :: sheets where
  "ex_workbook =
     [(''First Service'', [ex_family (Some 7) ex_jane]),
      (''Second Service'',
       [ex_family (Some 7) (ex_jane(''Full Name of Child 1'' \<mapsto> Str '' jane DOE '')),
        ex_family (Some 7) (ex_jane(''Age of Child 1'' \<mapsto> Num 9))])]"

subsection \<open>Notions used to state the properties\<close>

definition extends :: "'d store \<Rightarrow> 'd store \<Rightarrow> bool" where
  \<comment> \<open>\<open>s'\<close> is \<open>s\<close> with rows appended to its tables: no row changed, none removed; and
      a failed transaction has stayed failed\<close>
  "extends s s' =
     ((\<exists>ps. parents s' = parents s @ ps) \<and> (\<exists>cs. children s' = children s @ cs) \<and>
      (\<exists>as. attendance s' = attendance s @ as) \<and> (aborted s \<longrightarrow> aborted s'))"

definition no_new :: "stats \<Rightarrow> stats \<Rightarrow> bool" where
  \<comment> \<open>the counters of new parents, new children and recorded attendance did not move\<close>
  "no_new st st' =
     (new_parents st' = new_parents st \<and> new_children st' = new_children st \<and>
      attendance_recorded st' = attendance_recorded st)"

definition statement_failed ::
  "('d statement \<Rightarrow> bool) \<Rightarrow> (cell \<Rightarrow> 'd option) \<Rightarrow> 'd \<Rightarrow> row list \<Rightarrow> 'd connection \<Rightarrow> bool" where
  \<comment> \<open>the loop of the call ends with its transaction failed: one of its statements raised\<close>
  "statement_failed rejects to_date today df conn =
     aborted (working (fst (run_loop rejects to_date today df (init_stats df) conn)))"


definition slot_named :: "row \<Rightarrow> nat \<Rightarrow> bool" where
  \<comment> \<open>the batch script does not skip the slot: its name cell is present and not blank\<close>
  "slot_named r child_num =
     (\<not> (isna (r (slot_label ''Full Name of Child '' child_num)) \<or>
          strip (py_str_opt (r (slot_label ''Full Name of Child '' child_num))) = []))"


definition child_ids_unique :: "'d store \<Rightarrow> bool" where
  \<comment> \<open>\<^verbatim>\<open>child_id\<close> is a key of the children table, drawn from its sequence\<close>
  "child_ids_unique s =
     (distinct (map c_child_id (children s)) \<and>
      (\<forall>c \<in> set (children s). c_child_id c < child_id_seq s))"

definition slot_child_id :: "(string \<rightharpoonup> nat) \<Rightarrow> nat \<Rightarrow> row \<Rightarrow> nat \<Rightarrow> nat option" where
  \<comment> \<open>the \<^verbatim>\<open>child_id\<close> STEP 3 of the batch script finds for a child slot (lines 122 to 131)\<close>
  "slot_child_id child_lookup pid r child_num =
     (if slot_named r child_num
      then (case slot_age r child_num of
              Inl e \<Rightarrow> None
            | Inr child_age \<Rightarrow>
                child_lookup (make_key pid
                  (upper (strip (py_str_opt (r (slot_label ''Full Name of Child '' child_num)))))
                  child_age))
      else None)"





section \<open>Properties\<close>

subsection \<open>Attendance uniqueness in batch mode\<close>

text \<open>
  C1. The claim: in both modes at most one attendance record exists per
  (child_id, service_name, attendance_date), even when the same source row occurs twice.
  The batch script appends one record per checked-in slot and never deduplicates them:
  a sheet that holds the same row twice yields two records with the same triple.
\<close>

theorem batch_duplicate_row_two_attendance:
  "export_to_csv [(''First Service'', [ex_family (Some 7) ex_jane, ex_family (Some 7) ex_jane])] =
     Inr \<lparr>unique_parents =
            [\<lparr>parent_id = 1, original_id = Some 7, full_name = Str ''Ada Obi'', email = Str [],
              gender = Str ''Female'', role_in_church = Str ''Member'',
              department_in_church = NaN, phone_number = ''08012345678'',
              secondary_phone_number = [], address = NaN\<rparr>],
          children_unique =
            [\<lparr>child_id = 1, ch_parent_id = 1, ch_full_name = ''Jane Doe'', ch_age = 8,
              ch_gender = ''Female'', ch_special_needs = None,
              ch_relationship_to_parent = ''Child''\<rparr>],
          attendance_df =
            [\<lparr>ar_child_id = 1, ar_service_name = ''First Service'',
              ar_attendance_date = ''2026-01-26'', ar_check_in_time = None,
              ar_check_out_time = None, ar_was_present = True, attendance_id = 1\<rparr>,
             \<lparr>ar_child_id = 1, ar_service_name = ''First Service'',
              ar_attendance_date = ''2026-01-26'', ar_check_in_time = None,
              ar_check_out_time = None, ar_was_present = True, attendance_id = 2\<rparr>]\<rparr>"
  by code_simp

subsection \<open>Empty cells in the incremental load\<close>

text \<open>
  C6. The claim: a row whose parent name or phone is absent or empty is rejected and
  counted as an error, also when the cell is empty in the sheet. The check runs on
  \<^verbatim>\<open>str(row.get(...)).strip()\<close>, and \<^verbatim>\<open>str\<close> of an empty cell is the text \<^verbatim>\<open>nan\<close>: the row
  below, whose phone cell is empty, is accepted and a parent with phone \<^verbatim>\<open>nan\<close> is stored.
\<close>

theorem empty_phone_cell_is_accepted:
  "process_rows ex_rejects ex_to_date ex_today [ex_submission(''Your Phone'' \<mapsto> NaN)] empty_store =
     (\<lparr>parents = [\<lparr>p_parent_id = 1, p_full_name = ''Ada Obi'', p_phone_number = ''nan'',
                    p_gender = ''Female''\<rparr>],
       children = [\<lparr>c_child_id = 1, c_parent_id = 1, c_full_name = ''Jane Doe'', c_age = 8,
                     c_gender = ''Female''\<rparr>],
       attendance = [\<lparr>a_child_id = 1, a_service_name = ''First Service'',
                       a_attendance_date = ''2026-01-25'', a_was_present = True\<rparr>],
       parent_id_seq = 2, child_id_seq = 2, aborted = False\<rparr>,
      \<lparr>total_submissions = 1, new_parents = 1, existing_parents = 0, new_children = 1,
       existing_children = 0, attendance_recorded = 1, errors = 0\<rparr>)"
  by code_simp

text \<open>
  C7. The claim: a child slot whose name is absent or blank is skipped in both modes,
  also when the cell is empty. In the incremental load the name is
  \<^verbatim>\<open>str(row.get(..., "")).strip()\<close>, so the empty second slot of the row below becomes a
  child called \<^verbatim>\<open>nan\<close> with an attendance record of its own.
\<close>

theorem empty_child_name_cell_creates_child:
  "process_rows ex_rejects ex_to_date ex_today [ex_submission(''Child 2 Name'' \<mapsto> NaN)] empty_store =
     (\<lparr>parents = [\<lparr>p_parent_id = 1, p_full_name = ''Ada Obi'',
                    p_phone_number = ''08012345678'', p_gender = ''Female''\<rparr>],
       children = [\<lparr>c_child_id = 1, c_parent_id = 1, c_full_name = ''Jane Doe'', c_age = 8,
                     c_gender = ''Female''\<rparr>,
                   \<lparr>c_child_id = 2, c_parent_id = 1, c_full_name = ''nan'', c_age = 0,
                     c_gender = ''Male''\<rparr>],
       attendance = [\<lparr>a_child_id = 1, a_service_name = ''First Service'',
                       a_attendance_date = ''2026-01-25'', a_was_present = True\<rparr>,
                     \<lparr>a_child_id = 2, a_service_name = ''First Service'',
                       a_attendance_date = ''2026-01-25'', a_was_present = True\<rparr>],
       parent_id_seq = 2, child_id_seq = 3, aborted = False\<rparr>,
      \<lparr>total_submissions = 1, new_parents = 1, existing_parents = 0, new_children = 2,
       existing_children = 0, attendance_recorded = 2, errors = 0\<rparr>)"
  by code_simp

subsection \<open>How a turn of the loops ends\<close>

lemma failed_aborted: "aborted (failed s)"
  by (simp add: failed_def)

lemma failed_tables:
  "parents (failed s) = parents s" "children (failed s) = children s"
  "attendance (failed s) = attendance s" "parent_id_seq (failed s) = parent_id_seq s"
  "child_id_seq (failed s) = child_id_seq s"
  by (simp_all add: failed_def)

lemma failed_idem: "aborted s \<Longrightarrow> failed s = s"
  by (simp add: failed_def)

lemma execute_raises_aborted: "aborted s \<Longrightarrow> execute_raises rejects s q"
  by (simp add: execute_raises_def)

lemma process_child_Done:
  fixes r :: row and n :: nat
  defines "name \<equiv> strip (py_str (row_get r (child_label n '' Name'') (Str '''')))"
    and "age \<equiv> clean_age (row_get r (child_label n '' Age'') (Num 0))"
    and "g \<equiv> valid_gender (strip (py_str (row_get r (child_label n '' Gender'') (Str ''Male''))))"
    and "svc \<equiv> strip (py_str (row_get r ''Which Service'' (Str ''First Service'')))"
  assumes run: "process_child rejects d r pid n (s, st) = Done (s1, st1)"
  obtains (skip) "name = []" "s1 = s" "st1 = st"
  | (recorded) cid sa sta where "name \<noteq> []"
      "\<not> resolve_child_raises rejects s pid name age g"
      "resolve_child s st pid name age g = (cid, sa, sta)"
      "\<not> execute_raises rejects sa (InsertAttendance cid svc d)"
      "record_attendance sa sta cid svc d = (s1, st1)"
proof (cases "name = []")
  case True
  with run have "s1 = s" "st1 = st" by (simp_all add: process_child_def name_def)
  with True show ?thesis by (rule skip)
next
  case False
  obtain cid sa sta where rc: "resolve_child s st pid name age g = (cid, sa, sta)"
    by (cases "resolve_child s st pid name age g") auto
  from run False rc have a: "\<not> resolve_child_raises rejects s pid name age g"
    by (auto simp: process_child_def Let_def name_def age_def g_def svc_def split: if_splits)
  from run False rc a have b: "\<not> execute_raises rejects sa (InsertAttendance cid svc d)"
    by (auto simp: process_child_def Let_def name_def age_def g_def svc_def split: if_splits)
  from run False rc a b have "record_attendance sa sta cid svc d = (s1, st1)"
    by (auto simp: process_child_def Let_def name_def age_def g_def svc_def split: if_splits)
  with False a rc b show ?thesis by (rule recorded)
qed

lemma process_child_Raised:
  fixes r :: row and n :: nat
  defines "name \<equiv> strip (py_str (row_get r (child_label n '' Name'') (Str '''')))"
    and "age \<equiv> clean_age (row_get r (child_label n '' Age'') (Num 0))"
    and "g \<equiv> valid_gender (strip (py_str (row_get r (child_label n '' Gender'') (Str ''Male''))))"
    and "svc \<equiv> strip (py_str (row_get r ''Which Service'' (Str ''First Service'')))"
  assumes run: "process_child rejects d r pid n (s, st) = Raised (s1, st1)"
  obtains (child) "name \<noteq> []" "resolve_child_raises rejects s pid name age g"
      "s1 = failed s" "st1 = st"
  | (attendance) cid sa where "name \<noteq> []"
      "\<not> resolve_child_raises rejects s pid name age g"
      "resolve_child s st pid name age g = (cid, sa, st1)"
      "execute_raises rejects sa (InsertAttendance cid svc d)"
      "s1 = failed sa"
proof -
  from run have ne: "name \<noteq> []"
    by (auto simp: process_child_def Let_def name_def split: if_splits)
  show ?thesis
  proof (cases "resolve_child_raises rejects s pid name age g")
    case True
    with run ne have "s1 = failed s" "st1 = st"
      by (auto simp: process_child_def Let_def name_def age_def g_def svc_def split: if_splits)
    with ne True show ?thesis by (rule child)
  next
    case False
    obtain cid sa sta where rc: "resolve_child s st pid name age g = (cid, sa, sta)"
      by (cases "resolve_child s st pid name age g") auto
    from run ne False rc
    have b: "execute_raises rejects sa (InsertAttendance cid svc d)"
      by (auto simp: process_child_def Let_def name_def age_def g_def svc_def split: if_splits)
    from run ne False rc b have "s1 = failed sa" "sta = st1"
      by (auto simp: process_child_def Let_def name_def age_def g_def svc_def split: if_splits)
    with ne False rc b show ?thesis by (auto intro: attendance)
  qed
qed

lemma outcome_cases:
  obtains (Raised) s st where "out = Raised (s, st)" | (Done) s st where "out = Done (s, st)"
  by (cases out) auto

subsection \<open>Relations kept by the loops\<close>

lemma run_children_rel:
  assumes step: "\<And>n a. R a (state_of (turn n a))"
    and refl: "\<And>a. R a a"
    and trans: "\<And>a b c. R a b \<Longrightarrow> R b c \<Longrightarrow> R a c"
  shows "R a (state_of (run_children turn ns a))"
proof (induction ns arbitrary: a)
  case Nil
  show ?case by (simp add: refl)
next
  case (Cons n ns)
  show ?case
  proof (cases "turn n a")
    case (Raised b)
    with step [of a n] show ?thesis by simp
  next
    case (Done b)
    with step [of a n] have "R a b" by simp
    moreover have "R b (state_of (run_children turn ns b))" by (rule Cons.IH)
    ultimately show ?thesis using Done by (auto intro: trans)
  qed
qed

lemma fold_rel:
  assumes step: "\<And>x a. x \<in> set xs \<Longrightarrow> R a (f x a)"
    and refl: "\<And>a. R a a"
    and trans: "\<And>a b c. R a b \<Longrightarrow> R b c \<Longrightarrow> R a c"
  shows "R a (fold f xs a)"
  using step
proof (induction xs arbitrary: a)
  case Nil
  show ?case by (simp add: refl)
next
  case (Cons x xs)
  have "R a (f x a)" by (rule Cons.prems) simp
  moreover have "R (f x a) (fold f xs (f x a))" by (rule Cons.IH) (simp add: Cons.prems)
  ultimately show ?case by (auto intro: trans)
qed

lemma process_row_cases:
  fixes r :: row
  defines "name \<equiv> strip (py_str (row_get r ''Your Name'' (Str '''')))"
    and "phone \<equiv> strip (py_str (row_get r ''Your Phone'' (Str '''')))"
    and "g \<equiv> valid_gender (strip (py_str (row_get r ''Your Gender'' (Str ''Male''))))"
  assumes run: "process_row rejects to_date today r (s, st) = (s1, st1)"
  obtains (invalid) "phone = [] \<or> name = []" "s1 = s" "st1 = st\<lparr>errors := errors st + 1\<rparr>"
  | (no_date) "phone \<noteq> []" "name \<noteq> []" "row_date to_date today r = None"
      "s1 = s" "st1 = st\<lparr>errors := errors st + 1\<rparr>"
  | (parent) d where "phone \<noteq> []" "name \<noteq> []" "row_date to_date today r = Some d"
      "resolve_parent_raises rejects s name phone g"
      "s1 = failed s" "st1 = st\<lparr>errors := errors st + 1\<rparr>"
  | (raised) d pid sa sta st2 where "phone \<noteq> []" "name \<noteq> []"
      "row_date to_date today r = Some d"
      "\<not> resolve_parent_raises rejects s name phone g"
      "resolve_parent s st name phone g = (pid, sa, sta)"
      "run_children (process_child rejects d r pid) [1 ..< 4] (sa, sta) = Raised (s1, st2)"
      "st1 = st2\<lparr>errors := errors st2 + 1\<rparr>"
  | (completed) d pid sa sta where "phone \<noteq> []" "name \<noteq> []"
      "row_date to_date today r = Some d"
      "\<not> resolve_parent_raises rejects s name phone g"
      "resolve_parent s st name phone g = (pid, sa, sta)"
      "run_children (process_child rejects d r pid) [1 ..< 4] (sa, sta) = Done (s1, st1)"
proof (cases "phone = [] \<or> name = []")
  case True
  with run have "s1 = s" "st1 = st\<lparr>errors := errors st + 1\<rparr>"
    by (auto simp: process_row_def Let_def name_def phone_def)
  with True show ?thesis by (rule invalid)
next
  case False
  then have ne: "phone \<noteq> []" "name \<noteq> []" by simp_all
  show ?thesis
  proof (cases "row_date to_date today r")
    case None
    with run False have "s1 = s" "st1 = st\<lparr>errors := errors st + 1\<rparr>"
      by (auto simp: process_row_def Let_def name_def phone_def)
    with ne None show ?thesis by (rule no_date)
  next
    case (Some d)
    show ?thesis
    proof (cases "resolve_parent_raises rejects s name phone g")
      case True
      with run False Some have "s1 = failed s" "st1 = st\<lparr>errors := errors st + 1\<rparr>"
        by (auto simp: process_row_def Let_def name_def phone_def g_def)
      with ne Some True show ?thesis by (rule parent)
    next
      case nr: False
      obtain pid sa sta where rp: "resolve_parent s st name phone g = (pid, sa, sta)"
        by (cases "resolve_parent s st name phone g") auto
      show ?thesis
      proof (cases "run_children (process_child rejects d r pid) [1 ..< 4] (sa, sta)"
          rule: outcome_cases)
        case (Raised s2 st2)
        with run False Some nr rp have "s2 = s1" "st1 = st2\<lparr>errors := errors st2 + 1\<rparr>"
          by (auto simp: process_row_def Let_def name_def phone_def g_def)
        with ne Some nr rp Raised show ?thesis by (auto intro: raised)
      next
        case (Done s2 st2)
        with run False Some nr rp have "s2 = s1" "st2 = st1"
          by (auto simp: process_row_def Let_def name_def phone_def g_def)
        with ne Some nr rp Done show ?thesis by (auto intro: completed)
      qed
    qed
  qed
qed

subsection \<open>The incremental load only appends rows\<close>

lemma extends_refl: "extends s s"
  by (simp add: extends_def)

lemma extends_trans: "extends s s' \<Longrightarrow> extends s' s'' \<Longrightarrow> extends s s''"
  by (auto simp: extends_def)

lemma extends_failed: "extends s (failed s)"
  by (simp add: extends_def failed_def)

lemma extends_not_aborted: "extends s s' \<Longrightarrow> \<not> aborted s' \<Longrightarrow> \<not> aborted s"
  by (auto simp: extends_def)

lemma find_append_Some: "find P xs = Some x \<Longrightarrow> find P (xs @ ys) = Some x"
  by (induction xs) (auto split: if_splits)

lemma find_append_None: "find P xs = None \<Longrightarrow> find P (xs @ ys) = find P ys"
  by (induction xs) (auto split: if_splits)

lemma select_parent_extends:
  "select_parent s phone = Some pid \<Longrightarrow> extends s s' \<Longrightarrow> select_parent s' phone = Some pid"
  by (auto simp: select_parent_def extends_def find_append_Some)

lemma select_child_extends:
  "select_child s pid name age = Some cid \<Longrightarrow> extends s s' \<Longrightarrow>
   select_child s' pid name age = Some cid"
  by (auto simp: select_child_def extends_def find_append_Some)

lemma attendance_conflict_extends:
  "attendance_conflict s cid service d \<Longrightarrow> extends s s' \<Longrightarrow> attendance_conflict s' cid service d"
  by (auto simp: attendance_conflict_def extends_def)

lemma resolve_parent_extends:
  "resolve_parent s st name phone g = (pid, s1, st1) \<Longrightarrow> extends s s1"
  by (auto simp: resolve_parent_def insert_parent_def extends_def split: option.splits)

lemma resolve_parent_selects:
  "resolve_parent s st name phone g = (pid, s1, st1) \<Longrightarrow> select_parent s1 phone = Some pid"
  by (auto simp: resolve_parent_def insert_parent_def select_parent_def find_append_None
           split: option.splits)

lemma resolve_child_extends:
  "resolve_child s st pid name age g = (cid, s1, st1) \<Longrightarrow> extends s s1"
  by (auto simp: resolve_child_def insert_child_def extends_def split: option.splits)

lemma resolve_child_selects:
  "resolve_child s st pid name age g = (cid, s1, st1) \<Longrightarrow> select_child s1 pid name age = Some cid"
  by (auto simp: resolve_child_def insert_child_def select_child_def find_append_None
           split: option.splits)

lemma record_attendance_extends:
  "record_attendance s st cid service d = (s1, st1) \<Longrightarrow> extends s s1"
  by (auto simp: record_attendance_def insert_attendance_def extends_def split: if_splits)

lemma record_attendance_conflict:
  "record_attendance s st cid service d = (s1, st1) \<Longrightarrow> attendance_conflict s1 cid service d"
  by (auto simp: record_attendance_def insert_attendance_def attendance_conflict_def
           split: if_splits)

lemma process_child_extends:
  "extends s (fst (state_of (process_child rejects d r pid n (s, st))))"
proof (cases "process_child rejects d r pid n (s, st)" rule: outcome_cases)
  case (Raised s1 st1)
  then show ?thesis
  proof (cases rule: process_child_Raised)
    case child
    with Raised show ?thesis by (simp add: extends_failed)
  next
    case (attendance cid sa)
    from resolve_child_extends [OF attendance(3)] have "extends s (failed sa)"
      by (rule extends_trans) (rule extends_failed)
    with Raised attendance show ?thesis by simp
  qed
next
  case (Done s1 st1)
  then show ?thesis
  proof (cases rule: process_child_Done)
    case skip
    with Done show ?thesis by (simp add: extends_refl)
  next
    case (recorded cid sa sta)
    from resolve_child_extends [OF recorded(3)] record_attendance_extends [OF recorded(5)]
    have "extends s s1" by (rule extends_trans)
    with Done show ?thesis by simp
  qed
qed

lemma run_children_extends:
  assumes "state_of (run_children (process_child rejects d r pid) ns (s, st)) = (s1, st1)"
  shows "extends s s1"
proof -
  have "extends (fst (s, st))
          (fst (state_of (run_children (process_child rejects d r pid) ns (s, st))))"
  proof (rule run_children_rel [where R = "\<lambda>a b. extends (fst a) (fst b)"])
    fix n and a :: "'a store \<times> stats"
    show "extends (fst a) (fst (state_of (process_child rejects d r pid n a)))"
      by (cases a) (simp add: process_child_extends)
  qed (auto simp: extends_refl intro: extends_trans)
  with assms show ?thesis by simp
qed

lemma process_row_extends:
  assumes "process_row rejects to_date today r (s, st) = (s1, st1)"
  shows "extends s s1"
  using assms
proof (cases rule: process_row_cases)
  case invalid
  then show ?thesis by (simp add: extends_refl)
next
  case no_date
  then show ?thesis by (simp add: extends_refl)
next
  case (parent d)
  then show ?thesis by (simp add: extends_failed)
next
  case (raised d pid sa sta st2)
  have "extends sa s1"
    using run_children_extends [of rejects d r pid "[1 ..< 4]" sa sta s1 st2] raised(6) by simp
  with resolve_parent_extends [OF raised(5)] show ?thesis by (rule extends_trans)
next
  case (completed d pid sa sta)
  have "extends sa s1"
    using run_children_extends [of rejects d r pid "[1 ..< 4]" sa sta s1 st1] completed(6)
    by simp
  with resolve_parent_extends [OF completed(5)] show ?thesis by (rule extends_trans)
qed

lemma fold_process_row_extends:
  assumes "fold (process_row rejects to_date today) df (s, st) = (s1, st1)"
  shows "extends s s1"
proof -
  have "extends (fst (s, st)) (fst (fold (process_row rejects to_date today) df (s, st)))"
  proof (rule fold_rel [where R = "\<lambda>a b. extends (fst a) (fst b)"])
    fix x and a :: "'a store \<times> stats"
    show "extends (fst a) (fst (process_row rejects to_date today x a))"
      by (cases a, cases "process_row rejects to_date today x a")
        (auto dest: process_row_extends)
  qed (auto simp: extends_refl intro: extends_trans)
  with assms show ?thesis by simp
qed

subsection \<open>Processing a row again changes nothing\<close>

lemma no_new_refl: "no_new st st"
  by (simp add: no_new_def)

lemma no_new_trans: "no_new st st' \<Longrightarrow> no_new st' st'' \<Longrightarrow> no_new st st''"
  by (simp add: no_new_def)

lemma resolve_parent_again:
  "select_parent s phone = Some pid \<Longrightarrow>
   resolve_parent s st name phone g = (pid, s, st\<lparr>existing_parents := existing_parents st + 1\<rparr>)"
  by (simp add: resolve_parent_def)

lemma resolve_child_again:
  "select_child s pid name age = Some cid \<Longrightarrow>
   resolve_child s st pid name age g = (cid, s, st\<lparr>existing_children := existing_children st + 1\<rparr>)"
  by (simp add: resolve_child_def)

lemma record_attendance_again:
  "attendance_conflict s cid service d \<Longrightarrow> record_attendance s st cid service d = (s, st)"
  by (simp add: record_attendance_def insert_attendance_def)

lemma process_child_Raised_aborted:
  assumes "process_child rejects d r pid n (s, st) = Raised (s1, st1)"
  shows "aborted s1"
  using assms by (cases rule: process_child_Raised) (simp_all add: failed_aborted)

lemma run_children_Raised_aborted:
  "run_children (process_child rejects d r pid) ns (s, st) = Raised (s1, st1) \<Longrightarrow> aborted s1"
proof (induction ns arbitrary: s st)
  case Nil
  then show ?case by simp
next
  case (Cons n ns)
  show ?case
  proof (cases "process_child rejects d r pid n (s, st)" rule: outcome_cases)
    case (Raised sa sta)
    with Cons.prems have "sa = s1" by simp
    with process_child_Raised_aborted [OF Raised] show ?thesis by simp
  next
    case (Done sa sta)
    with Cons.prems
    have "run_children (process_child rejects d r pid) ns (sa, sta) = Raised (s1, st1)"
      by simp
    then show ?thesis by (rule Cons.IH)
  qed
qed

lemma process_child_again:
  assumes run: "process_child rejects d r pid n (s, st) = Done (s1, st1)"
    and ext: "extends s1 s'"
    and ok: "\<not> aborted s'"
  shows "\<exists>st''. process_child rejects d r pid n (s', st') = Done (s', st'') \<and> no_new st' st''"
  using run
proof (cases rule: process_child_Done)
  case skip
  then show ?thesis by (simp add: process_child_def no_new_refl)
next
  case (recorded cid sa sta)
  define name where "name = strip (py_str (row_get r (child_label n '' Name'') (Str '''')))"
  define age where "age = clean_age (row_get r (child_label n '' Age'') (Num 0))"
  define g where "g = valid_gender (strip (py_str (row_get r (child_label n '' Gender'') (Str ''Male''))))"
  define svc where "svc = strip (py_str (row_get r ''Which Service'' (Str ''First Service'')))"
  note rec = recorded [folded name_def age_def g_def svc_def]
  have "extends sa s'"
    using record_attendance_extends [OF rec(5)] ext by (rule extends_trans)
  with resolve_child_selects [OF rec(3)] have sel: "select_child s' pid name age = Some cid"
    by (rule select_child_extends)
  have conf: "attendance_conflict s' cid svc d"
    using record_attendance_conflict [OF rec(5)] ext by (rule attendance_conflict_extends)
  from rec(2) have "\<not> rejects (SelectChild pid name age)"
    by (simp add: resolve_child_raises_def execute_raises_def)
  with ok sel have nr: "\<not> resolve_child_raises rejects s' pid name age g"
    by (simp add: resolve_child_raises_def execute_raises_def)
  from rec(4) ok have na: "\<not> execute_raises rejects s' (InsertAttendance cid svc d)"
    by (simp add: execute_raises_def)
  have "process_child rejects d r pid n (s', st') =
          Done (s', st'\<lparr>existing_children := existing_children st' + 1\<rparr>)"
    using rec(1) nr na
    by (simp add: process_child_def Let_def name_def [symmetric] age_def [symmetric]
          g_def [symmetric] svc_def [symmetric] resolve_child_again [OF sel]
          record_attendance_again [OF conf])
  then show ?thesis by (simp add: no_new_def)
qed

lemma run_children_again:
  "run_children (process_child rejects d r pid) ns (s, st) = Done (s1, st1) \<Longrightarrow>
   extends s1 s' \<Longrightarrow> \<not> aborted s' \<Longrightarrow>
   \<exists>st''. run_children (process_child rejects d r pid) ns (s', st') = Done (s', st'') \<and>
          no_new st' st''"
proof (induction ns arbitrary: s st st')
  case Nil
  then show ?case by (simp add: no_new_refl)
next
  case (Cons n ns)
  show ?case
  proof (cases "process_child rejects d r pid n (s, st)" rule: outcome_cases)
    case (Raised sa sta)
    with Cons.prems(1) show ?thesis by simp
  next
    case (Done sa sta)
    with Cons.prems(1)
    have rest: "run_children (process_child rejects d r pid) ns (sa, sta) = Done (s1, st1)"
      by simp
    have "extends sa s1"
      using run_children_extends [of rejects d r pid ns sa sta s1 st1] rest by simp
    then have "extends sa s'" using Cons.prems(2) by (rule extends_trans)
    from process_child_again [OF Done this Cons.prems(3)] obtain stb
      where b: "process_child rejects d r pid n (s', st') = Done (s', stb)"
        and nb: "no_new st' stb" by blast
    from Cons.IH [OF rest Cons.prems(2) Cons.prems(3)] obtain stc
      where c: "run_children (process_child rejects d r pid) ns (s', stb) = Done (s', stc)"
        and nc: "no_new stb stc"
      by blast
    from b c have "run_children (process_child rejects d r pid) (n # ns) (s', st') = Done (s', stc)"
      by simp
    with no_new_trans [OF nb nc] show ?thesis by blast
  qed
qed

lemma process_row_again:
  assumes run: "process_row rejects to_date today r (s, st) = (s1, st1)"
    and ext: "extends s1 s'"
    and ok: "\<not> aborted s'"
    and date: "row_date to_date today' r = row_date to_date today r"
  shows "\<exists>st''. process_row rejects to_date today' r (s', st') = (s', st'') \<and> no_new st' st''"
proof -
  define name where "name = strip (py_str (row_get r ''Your Name'' (Str '''')))"
  define phone where "phone = strip (py_str (row_get r ''Your Phone'' (Str '''')))"
  define g where "g = valid_gender (strip (py_str (row_get r ''Your Gender'' (Str ''Male''))))"
  from ext ok have ok1: "\<not> aborted s1" by (rule extends_not_aborted)
  from run show ?thesis
  proof (cases rule: process_row_cases)
    case invalid
    then show ?thesis
      by (auto simp: process_row_def Let_def no_new_def)
  next
    case no_date
    with date show ?thesis
      by (auto simp: process_row_def Let_def no_new_def)
  next
    case (parent d)
    with ok1 show ?thesis by (simp add: failed_aborted)
  next
    case (raised d pid sa sta st2)
    from run_children_Raised_aborted [OF raised(6)] ok1 show ?thesis by simp
  next
    case (completed d pid sa sta)
    note c = completed [folded name_def phone_def g_def]
    have "extends sa s1"
      using run_children_extends [of rejects d r pid "[1 ..< 4]" sa sta s1 st1] c(6) by simp
    then have "extends sa s'" using ext by (rule extends_trans)
    with resolve_parent_selects [OF c(5)] have sel: "select_parent s' phone = Some pid"
      by (rule select_parent_extends)
    from c(4) have "\<not> rejects (SelectParent phone)"
      by (simp add: resolve_parent_raises_def execute_raises_def)
    with ok sel have nr: "\<not> resolve_parent_raises rejects s' name phone g"
      by (simp add: resolve_parent_raises_def execute_raises_def)
    from run_children_again [OF c(6) ext ok] obtain stc
      where k: "run_children (process_child rejects d r pid) [1 ..< 4]
                  (s', st'\<lparr>existing_parents := existing_parents st' + 1\<rparr>) = Done (s', stc)"
        and nc: "no_new (st'\<lparr>existing_parents := existing_parents st' + 1\<rparr>) stc"
      by blast
    from c(1,2,3) date nr k
    have "process_row rejects to_date today' r (s', st') = (s', stc)"
      by (simp add: process_row_def Let_def name_def [symmetric] phone_def [symmetric]
            g_def [symmetric] resolve_parent_again [OF sel])
    moreover from nc have "no_new st' stc" by (simp add: no_new_def)
    ultimately show ?thesis by blast
  qed
qed


subsection \<open>Idempotence of the incremental load\<close>




subsection \<open>One commit per run\<close>

lemma run_loop_committed:
  "committed (fst (run_loop rejects to_date today df st conn)) = committed conn"
  by (simp add: run_loop_def split: prod.splits)

lemma run_loop_working:
  "working (fst (run_loop rejects to_date today df st conn)) =
     fst (fold (process_row rejects to_date today) df (working conn, st))"
  by (simp add: run_loop_def split: prod.splits)

lemma failed_run_keeps_nothing:
  assumes "statement_failed rejects to_date today df conn"
  shows "parents (committed (fst (process_attendance rejects to_date today df conn))) =
           parents (committed conn) \<and>
         children (committed (fst (process_attendance rejects to_date today df conn))) =
           children (committed conn) \<and>
         attendance (committed (fst (process_attendance rejects to_date today df conn))) =
           attendance (committed conn)"
  using assms
  by (auto simp: statement_failed_def process_attendance_def commit_def rolled_back_def
        run_loop_def split: prod.splits)

text \<open>
  C4. The claim: in incremental mode the store is committed once per row, so a failure
  in the middle of a run loses at most the row in flight. The code commits once, after
  the loop: however many rows the loop has handled, the committed state is still the
  one the call started with, and it is the completed call that makes the working state
  durable, when no statement of the loop has failed.
\<close>

theorem commit_once_after_loop:
  "committed (fst (run_loop rejects to_date today (take k df) (init_stats df) conn)) =
     committed conn \<and>
   (\<not> statement_failed rejects to_date today df conn \<longrightarrow>
    committed (fst (process_attendance rejects to_date today df conn)) =
      fst (fold (process_row rejects to_date today) df (working conn, init_stats df)) \<and>
    working (fst (process_attendance rejects to_date today df conn)) =
      fst (fold (process_row rejects to_date today) df (working conn, init_stats df)))"
  by (simp add: run_loop_committed statement_failed_def process_attendance_def commit_def
        run_loop_def split: prod.splits)

theorem commit_once_after_loop_witness:
  "\<not> statement_failed ex_rejects ex_to_date ex_today [ex_submission] ex_conn \<and>
   committed (fst (run_loop ex_rejects ex_to_date ex_today (take 0 [ex_submission])
      (init_stats [ex_submission]) ex_conn)) = committed ex_conn \<and>
   committed (fst (process_attendance ex_rejects ex_to_date ex_today [ex_submission] ex_conn)) =
     fst (fold (process_row ex_rejects ex_to_date ex_today) [ex_submission]
        (working ex_conn, init_stats [ex_submission])) \<and>
   working (fst (process_attendance ex_rejects ex_to_date ex_today [ex_submission] ex_conn)) =
     fst (fold (process_row ex_rejects ex_to_date ex_today) [ex_submission]
        (working ex_conn, init_stats [ex_submission]))"
proof -
  have clean: "\<not> statement_failed ex_rejects ex_to_date ex_today [ex_submission] ex_conn"
    by code_simp
  from commit_once_after_loop [of ex_rejects ex_to_date ex_today 0 "[ex_submission]" ex_conn]
  show ?thesis using clean by simp
qed

theorem first_row_not_durable_before_commit:
  "parents (committed (fst (run_loop ex_rejects ex_to_date ex_today
      (take 1 [ex_submission, ex_submission(''Your Phone'' \<mapsto> Str ''08099999999'')])
      (init_stats [ex_submission, ex_submission(''Your Phone'' \<mapsto> Str ''08099999999'')])
      ex_conn))) = [] \<and>
   map p_phone_number (parents (working (fst (run_loop ex_rejects ex_to_date ex_today
      (take 1 [ex_submission, ex_submission(''Your Phone'' \<mapsto> Str ''08099999999'')])
      (init_stats [ex_submission, ex_submission(''Your Phone'' \<mapsto> Str ''08099999999'')])
      ex_conn)))) = [''08012345678'']"
  by code_simp

subsection \<open>A failed statement in the incremental load\<close>

text \<open>
  C5. The claim: in both modes an exception raised while processing one row does not
  abort the run: it is caught at row granularity, counted as one error, and every
  subsequent row is still processed. The handler of the incremental loop catches the
  exception of a refused statement and goes on without a rollback, so every statement
  of every later row raises as well and the commit keeps nothing. Below, the first row
  has an empty timestamp cell, which reads as the not-a-time value that the store
  refuses as a date; the second row, which is sound, is counted as an error too, its
  parent, child and attendance are not stored, and neither is the parent of the first.
\<close>

theorem failed_statement_fails_later_rows:
  "process_attendance ex_rejects ex_to_date ex_today
     [ex_submission(''Timestamp'' \<mapsto> NaN),
      ex_submission(''Your Phone'' \<mapsto> Str ''08099999999'')] ex_conn =
     (\<lparr>committed = \<lparr>parents = [], children = [], attendance = [], parent_id_seq = 2,
                    child_id_seq = 2, aborted = False\<rparr>,
       working = \<lparr>parents = [], children = [], attendance = [], parent_id_seq = 2,
                  child_id_seq = 2, aborted = False\<rparr>\<rparr>,
      \<lparr>total_submissions = 2, new_parents = 1, existing_parents = 0, new_children = 1,
       existing_children = 0, attendance_recorded = 0, errors = 2\<rparr>) \<and>
   process_attendance ex_rejects ex_to_date ex_today
     [ex_submission(''Your Phone'' \<mapsto> Str ''08099999999'')] ex_conn =
     (\<lparr>committed =
         \<lparr>parents = [\<lparr>p_parent_id = 1, p_full_name = ''Ada Obi'',
                      p_phone_number = ''08099999999'', p_gender = ''Female''\<rparr>],
          children = [\<lparr>c_child_id = 1, c_parent_id = 1, c_full_name = ''Jane Doe'', c_age = 8,
                       c_gender = ''Female''\<rparr>],
          attendance = [\<lparr>a_child_id = 1, a_service_name = ''First Service'',
                         a_attendance_date = ''2026-01-25'', a_was_present = True\<rparr>],
          parent_id_seq = 2, child_id_seq = 2, aborted = False\<rparr>,
       working =
         \<lparr>parents = [\<lparr>p_parent_id = 1, p_full_name = ''Ada Obi'',
                      p_phone_number = ''08099999999'', p_gender = ''Female''\<rparr>],
          children = [\<lparr>c_child_id = 1, c_parent_id = 1, c_full_name = ''Jane Doe'', c_age = 8,
                       c_gender = ''Female''\<rparr>],
          attendance = [\<lparr>a_child_id = 1, a_service_name = ''First Service'',
                         a_attendance_date = ''2026-01-25'', a_was_present = True\<rparr>],
          parent_id_seq = 2, child_id_seq = 2, aborted = False\<rparr>\<rparr>,
      \<lparr>total_submissions = 1, new_parents = 1, existing_parents = 0, new_children = 1,
       existing_children = 0, attendance_recorded = 1, errors = 0\<rparr>)"
  by code_simp

text \<open>
  The batch script has no exception handling at all: an age text that \<^verbatim>\<open>int\<close> cannot
  read ends the export with no output.
\<close>

theorem batch_unparsable_age_aborts:
  "export_to_csv
     [(''First Service'',
       [ex_family (Some 7) (ex_jane(''Age of Child 1'' \<mapsto> Str ''eight'')),
        ex_family (Some 8) ex_jane])] = Inl ValueError"
  by code_simp

subsection \<open>The default service name\<close>

lemma strip_First_Service: "strip ''First Service'' = ''First Service''"
  by code_simp

lemma child_label_not_service: "child_label n sfx \<noteq> ''Which Service''"
  by (simp add: child_label_def)

lemma row_get_upd: "row_get (r(k \<mapsto> v)) l d = (if l = k then v else row_get r l d)"
  by (simp add: row_get_def)

lemma process_child_default_service:
  assumes "r ''Which Service'' = None"
  shows "process_child rejects d (r(''Which Service'' \<mapsto> Str ''First Service'')) pid n acc =
         process_child rejects d r pid n acc"
proof -
  have "row_get r ''Which Service'' (Str ''First Service'') = Str ''First Service''"
    using assms by (simp add: row_get_def)
  then show ?thesis
    by (simp add: process_child_def row_get_upd child_label_not_service Let_def
          split: prod.splits)
qed

lemma process_row_default_service:
  assumes "r ''Which Service'' = None"
  shows "process_row rejects to_date today (r(''Which Service'' \<mapsto> Str ''First Service'')) acc =
         process_row rejects to_date today r acc"
proof -
  have eq: "process_child rejects d (r(''Which Service'' \<mapsto> Str ''First Service'')) pid =
        process_child rejects d r pid" for d pid
    by (intro ext) (rule process_child_default_service [of r, OF assms])
  show ?thesis
    by (simp add: process_row_def row_date_def row_get_upd Let_def split_beta eq
          split: option.splits)
qed

lemma record_attendance_new_rows:
  "record_attendance s st cid service d = (s1, st1) \<Longrightarrow> a \<in> set (attendance s1) \<Longrightarrow>
   a \<in> set (attendance s) \<or> (a_child_id a = cid \<and> a_service_name a = service \<and> a_attendance_date a = d)"
  by (auto simp: record_attendance_def insert_attendance_def split: if_splits)

lemma resolve_child_attendance:
  "resolve_child s st pid name age g = (cid, s1, st1) \<Longrightarrow> attendance s1 = attendance s"
  by (auto simp: resolve_child_def insert_child_def split: option.splits)

lemma resolve_parent_attendance:
  "resolve_parent s st name phone g = (pid, s1, st1) \<Longrightarrow> attendance s1 = attendance s"
  by (auto simp: resolve_parent_def insert_parent_def split: option.splits)

lemma process_child_new_rows:
  assumes "state_of (process_child rejects d r pid n (s, st)) = (s1, st1)"
    and "a \<in> set (attendance s1)"
  shows "a \<in> set (attendance s) \<or>
     (a_service_name a = strip (py_str (row_get r ''Which Service'' (Str ''First Service''))) \<and>
      a_attendance_date a = d)"
proof (cases "process_child rejects d r pid n (s, st)" rule: outcome_cases)
  case (Raised s2 st2)
  with assms(1) have "process_child rejects d r pid n (s, st) = Raised (s1, st1)" by simp
  then show ?thesis
  proof (cases rule: process_child_Raised)
    case child
    with assms(2) show ?thesis by (simp add: failed_tables)
  next
    case (attendance cid sa)
    with assms(2) resolve_child_attendance [OF attendance(3)] show ?thesis
      by (simp add: failed_tables)
  qed
next
  case (Done s2 st2)
  with assms(1) have "process_child rejects d r pid n (s, st) = Done (s1, st1)" by simp
  then show ?thesis
  proof (cases rule: process_child_Done)
    case skip
    with assms(2) show ?thesis by simp
  next
    case (recorded cid sa sta)
    from record_attendance_new_rows [OF recorded(5) assms(2)]
      resolve_child_attendance [OF recorded(3)]
    show ?thesis by auto
  qed
qed

lemma run_children_new_rows:
  assumes "state_of (run_children (process_child rejects d r pid) ns (s, st)) = (s1, st1)"
    and "a \<in> set (attendance s1)"
  shows "a \<in> set (attendance s) \<or>
     (a_service_name a = strip (py_str (row_get r ''Which Service'' (Str ''First Service''))) \<and>
      a_attendance_date a = d)"
proof -
  define new where "new a \<longleftrightarrow>
     a_service_name a = strip (py_str (row_get r ''Which Service'' (Str ''First Service''))) \<and>
     a_attendance_date a = d" for a :: "'a attendance_row"
  define R where "R x y \<longleftrightarrow>
     (\<forall>a \<in> set (attendance (fst y)). a \<in> set (attendance (fst x)) \<or> new a)"
    for x y :: "'a store \<times> stats"
  have "R (s, st) (state_of (run_children (process_child rejects d r pid) ns (s, st)))"
  proof (rule run_children_rel [where R = R])
    fix n and x :: "'a store \<times> stats"
    obtain sx stx where x: "x = (sx, stx)" by (cases x)
    obtain sy sty where y: "state_of (process_child rejects d r pid n (sx, stx)) = (sy, sty)"
      by (cases "state_of (process_child rejects d r pid n (sx, stx))")
    from process_child_new_rows [OF y]
    show "R x (state_of (process_child rejects d r pid n x))"
      by (auto simp: R_def new_def x y)
  next
    fix x :: "'a store \<times> stats"
    show "R x x" by (simp add: R_def)
  next
    fix x y z :: "'a store \<times> stats"
    assume "R x y" "R y z"
    then show "R x z" by (auto simp: R_def)
  qed
  with assms show ?thesis by (auto simp: R_def new_def)
qed

lemma process_row_new_rows:
  assumes "process_row rejects to_date today r (s, st) = (s1, st1)"
    and "a \<in> set (attendance s1)"
  shows "a \<in> set (attendance s) \<or>
     (a_service_name a = strip (py_str (row_get r ''Which Service'' (Str ''First Service''))) \<and>
      Some (a_attendance_date a) = row_date to_date today r)"
  using assms(1)
proof (cases rule: process_row_cases)
  case invalid
  with assms(2) show ?thesis by simp
next
  case no_date
  with assms(2) show ?thesis by simp
next
  case (parent d)
  with assms(2) show ?thesis by (simp add: failed_tables)
next
  case (raised d pid sa sta st2)
  from raised(6)
  have "state_of (run_children (process_child rejects d r pid) [1 ..< 4] (sa, sta)) = (s1, st2)"
    by simp
  from run_children_new_rows [OF this assms(2)] resolve_parent_attendance [OF raised(5)]
    raised(3)
  show ?thesis by auto
next
  case (completed d pid sa sta)
  from completed(6)
  have "state_of (run_children (process_child rejects d r pid) [1 ..< 4] (sa, sta)) = (s1, st1)"
    by simp
  from run_children_new_rows [OF this assms(2)] resolve_parent_attendance [OF completed(5)]
    completed(3)
  show ?thesis by auto
qed

lemma process_row_aborted:
  assumes "aborted s"
  shows "\<exists>st'. process_row rejects to_date today r (s, st) = (s, st') \<and> no_new st st'"
proof -
  obtain s1 st1 where run: "process_row rejects to_date today r (s, st) = (s1, st1)"
    by (cases "process_row rejects to_date today r (s, st)")
  then show ?thesis
  proof (cases rule: process_row_cases)
    case invalid
    with run show ?thesis by (simp add: no_new_def)
  next
    case no_date
    with run show ?thesis by (simp add: no_new_def)
  next
    case (parent d)
    with run assms show ?thesis by (simp add: no_new_def failed_idem)
  next
    case (raised d pid sa sta st2)
    with assms show ?thesis
      by (simp add: resolve_parent_raises_def execute_raises_def)
  next
    case (completed d pid sa sta)
    with assms show ?thesis
      by (simp add: resolve_parent_raises_def execute_raises_def)
  qed
qed

lemma process_row_twice:
  assumes run: "process_row rejects to_date today r (s, st) = (s1, st1)"
  shows "\<exists>st''. process_row rejects to_date today r (s1, st') = (s1, st'') \<and> no_new st' st''"
proof (cases "aborted s1")
  case True
  then show ?thesis by (rule process_row_aborted)
next
  case False
  from process_row_again [OF run extends_refl False refl] show ?thesis .
qed

text \<open>
  C10. In incremental mode a row without a \<^verbatim>\<open>Which Service\<close> field is processed exactly
  as the same row with the field set to \<^verbatim>\<open>First Service\<close>: every attendance row it adds
  carries that service name, and after the row that names First Service has been
  processed it adds no attendance at all (the two merge on the natural key).
\<close>

theorem missing_service_is_first_service:
  assumes none: "r ''Which Service'' = None"
  shows "process_row rejects to_date today r acc =
           process_row rejects to_date today (r(''Which Service'' \<mapsto> Str ''First Service'')) acc \<and>
         (\<forall>a \<in> set (attendance (fst (process_row rejects to_date today r (s, st)))) -
                set (attendance s).
            a_service_name a = ''First Service'') \<and>
         (\<exists>st2. process_row rejects to_date today r
                  (process_row rejects to_date today
                     (r(''Which Service'' \<mapsto> Str ''First Service'')) (s, st)) =
                (fst (process_row rejects to_date today
                        (r(''Which Service'' \<mapsto> Str ''First Service'')) (s, st)), st2) \<and>
              attendance_recorded st2 =
                attendance_recorded
                  (snd (process_row rejects to_date today
                          (r(''Which Service'' \<mapsto> Str ''First Service'')) (s, st))))"
proof (intro conjI)
  show same: "process_row rejects to_date today r acc =
      process_row rejects to_date today (r(''Which Service'' \<mapsto> Str ''First Service'')) acc"
    for acc
    by (simp add: process_row_default_service [of r, OF none])
  show "\<forall>a \<in> set (attendance (fst (process_row rejects to_date today r (s, st)))) -
            set (attendance s).
      a_service_name a = ''First Service''"
  proof
    fix a
    assume a: "a \<in> set (attendance (fst (process_row rejects to_date today r (s, st)))) -
      set (attendance s)"
    obtain s1 st1 where run: "process_row rejects to_date today r (s, st) = (s1, st1)"
      by (cases "process_row rejects to_date today r (s, st)")
    from process_row_new_rows [OF run, of a] a run none
    show "a_service_name a = ''First Service''"
      by (auto simp: row_get_def py_str_def strip_First_Service)
  qed
  obtain s1 st1 where run: "process_row rejects to_date today r (s, st) = (s1, st1)"
    by (cases "process_row rejects to_date today r (s, st)")
  from process_row_twice [OF run, of st1]
  obtain st2 where "process_row rejects to_date today r (s1, st1) = (s1, st2)"
    and "no_new st1 st2"
    by blast
  with run same [of "(s, st)"]
  show "\<exists>st2. process_row rejects to_date today r
          (process_row rejects to_date today
             (r(''Which Service'' \<mapsto> Str ''First Service'')) (s, st)) =
        (fst (process_row rejects to_date today
                (r(''Which Service'' \<mapsto> Str ''First Service'')) (s, st)), st2) \<and>
      attendance_recorded st2 =
        attendance_recorded
          (snd (process_row rejects to_date today
                  (r(''Which Service'' \<mapsto> Str ''First Service'')) (s, st)))"
    by (auto simp: no_new_def)
qed

theorem missing_service_is_first_service_witness:
  "(ex_submission(''Which Service'' := None)) ''Which Service'' = None \<and>
   process_row ex_rejects ex_to_date ex_today (ex_submission(''Which Service'' := None))
       (empty_store, init_stats []) =
     process_row ex_rejects ex_to_date ex_today
       ((ex_submission(''Which Service'' := None))(''Which Service'' \<mapsto> Str ''First Service''))
       (empty_store, init_stats []) \<and>
   map a_service_name (attendance (fst (process_row ex_rejects ex_to_date ex_today
       (ex_submission(''Which Service'' := None)) (empty_store, init_stats [])))) =
     [''First Service'']"
proof -
  have n: "(ex_submission(''Which Service'' := None)) ''Which Service'' = None" by simp
  have c: "map a_service_name (attendance (fst (process_row ex_rejects ex_to_date ex_today
       (ex_submission(''Which Service'' := None)) (empty_store, init_stats [])))) =
     [''First Service'']"
    by code_simp
  from missing_service_is_first_service [of "ex_submission(''Which Service'' := None)", OF n,
      of ex_rejects ex_to_date ex_today "(empty_store, init_stats [])" empty_store
        "init_stats []"]
  show ?thesis using n c by blast
qed

subsection \<open>Decimal printing is injective\<close>

lemma digit_char_is_digit: "d < 10 \<Longrightarrow> is_digit (digit_char d)"
  unfolding is_digit_def digit_char_def by (rule nth_mem) simp

lemma digit_val_digit_char_all: "\<forall>d \<in> set [0 ..< 10]. digit_val (digit_char d) = d"
  by code_simp

lemma digit_val_digit_char: "d < 10 \<Longrightarrow> digit_val (digit_char d) = d"
  using digit_val_digit_char_all by simp

lemma str_nat_digits: "c \<in> set (str_nat n) \<Longrightarrow> is_digit c"
proof (induction n arbitrary: c rule: str_nat.induct)
  case (1 n)
  show ?case
  proof (cases "n < 10")
    case True
    with "1.prems" show ?thesis
      by (simp add: str_nat.simps [of n] digit_char_is_digit)
  next
    case False
    with "1.prems" "1.IH" show ?thesis
      by (auto simp: str_nat.simps [of n] digit_char_is_digit)
  qed
qed

lemma str_nat_not_Nil: "str_nat n \<noteq> []"
  by (cases "n < 10") (simp_all add: str_nat.simps [of n])

lemma nat_of_digits_snoc:
  "is_digit c \<Longrightarrow> nat_of_digits (ds @ [c]) = 10 * nat_of_digits ds + digit_val c"
  by (simp add: nat_of_digits_def)

lemma nat_of_digits_str_nat: "nat_of_digits (str_nat n) = n"
proof (induction n rule: str_nat.induct)
  case (1 n)
  show ?case
  proof (cases "n < 10")
    case True
    then show ?thesis
      by (simp add: str_nat.simps [of n] nat_of_digits_def digit_char_is_digit digit_val_digit_char)
  next
    case False
    with "1.IH" show ?thesis
      by (simp add: str_nat.simps [of n] nat_of_digits_snoc digit_char_is_digit
            digit_val_digit_char)
  qed
qed

lemma str_nat_inj: "str_nat a = str_nat b \<Longrightarrow> a = b"
  by (metis nat_of_digits_str_nat)

lemma str_nat_no_minus: "str_nat n \<noteq> CHR ''-'' # cs"
proof
  assume "str_nat n = CHR ''-'' # cs"
  then have "CHR ''-'' \<in> set (str_nat n)" by simp
  then have "is_digit CHR ''-''" by (rule str_nat_digits)
  then show False by (simp add: is_digit_def)
qed

lemma str_int_inj: "str_int a = str_int b \<Longrightarrow> a = b"
proof -
  assume eq: "str_int a = str_int b"
  consider "a < 0" "b < 0" | "a < 0" "0 \<le> b" | "0 \<le> a" "b < 0" | "0 \<le> a" "0 \<le> b"
    by linarith
  then show ?thesis
  proof cases
    case 1
    with eq have "nat (- a) = nat (- b)" by (auto simp: str_int_def dest: str_nat_inj)
    with 1 show ?thesis by simp
  next
    case 2
    with eq have "str_nat (nat b) = CHR ''-'' # str_nat (nat (- a))" by (simp add: str_int_def)
    with str_nat_no_minus show ?thesis by blast
  next
    case 3
    with eq have "str_nat (nat a) = CHR ''-'' # str_nat (nat (- b))" by (simp add: str_int_def)
    with str_nat_no_minus show ?thesis by blast
  next
    case 4
    with eq have "nat a = nat b" by (auto simp: str_int_def dest: str_nat_inj)
    with 4 show ?thesis by simp
  qed
qed

lemma make_key_age_inj: "make_key pid name a = make_key pid name b \<Longrightarrow> a = b"
  by (simp add: make_key_def str_int_inj)



subsection \<open>Loops that collect records, and first-wins deduplication\<close>

lemma collect_all_Inr:
  "\<forall>x \<in> set xs. \<exists>v. body x = Inr v \<Longrightarrow>
   collect body xs = Inr (concat (map (\<lambda>x. case body x of Inl e \<Rightarrow> [] | Inr v \<Rightarrow> v) xs))"
  by (induction xs) auto

lemma collect_Inr_D:
  "collect body xs = Inr ys \<Longrightarrow>
   (\<forall>x \<in> set xs. \<exists>v. body x = Inr v) \<and>
   ys = concat (map (\<lambda>x. case body x of Inl e \<Rightarrow> [] | Inr v \<Rightarrow> v) xs)"
  by (induction xs arbitrary: ys) (auto split: sum.splits)

lemma collect_Inr_iff:
  "collect body xs = Inr ys \<longleftrightarrow>
     (\<forall>x \<in> set xs. \<exists>v. body x = Inr v) \<and>
     ys = concat (map (\<lambda>x. case body x of Inl e \<Rightarrow> [] | Inr v \<Rightarrow> v) xs)"
  using collect_all_Inr [of xs body] collect_Inr_D [of body xs ys] by auto

lemma collect_member:
  "collect body xs = Inr ys \<Longrightarrow> x \<in> set xs \<Longrightarrow> body x = Inr v \<Longrightarrow> set v \<subseteq> set ys"
  by (auto simp: collect_Inr_iff)

lemma collect_origin:
  "collect body xs = Inr ys \<Longrightarrow> y \<in> set ys \<Longrightarrow> \<exists>x \<in> set xs. \<exists>v. body x = Inr v \<and> y \<in> set v"
  by (fastforce simp: collect_Inr_iff split: sum.splits)

lemma drop_duplicates_subset: "set (drop_duplicates key xs) \<subseteq> set xs"
  by (induction key xs rule: drop_duplicates.induct) auto

lemma drop_duplicates_keys: "key ` set (drop_duplicates key xs) = key ` set xs"
proof (induction key xs rule: drop_duplicates.induct)
  case (1 key)
  show ?case by simp
next
  case (2 key x xs)
  have "key ` set (x # xs) = insert (key x) (key ` set (filter (\<lambda>y. key y \<noteq> key x) xs))"
    by auto
  with 2 show ?case by simp
qed

lemma drop_duplicates_distinct: "distinct (map key (drop_duplicates key xs))"
proof (induction key xs rule: drop_duplicates.induct)
  case (1 key)
  show ?case by simp
next
  case (2 key x xs)
  have "key x \<notin> key ` set (drop_duplicates key (filter (\<lambda>y. key y \<noteq> key x) xs))"
    by (auto simp: drop_duplicates_keys)
  with 2 show ?case by simp
qed



lemma enumerate_ids_distinct: "distinct (map fst (enumerate n xs))"
  by (simp add: map_fst_enumerate)

lemma fold_upd_Some:
  "fold (\<lambda>x m. m(kf x \<mapsto> vf x)) xs m0 k = Some v \<Longrightarrow>
   (\<exists>x \<in> set xs. kf x = k \<and> vf x = v) \<or> m0 k = Some v"
  by (induction xs arbitrary: m0) (fastforce split: if_splits)+

lemma fold_upd_dom:
  "dom (fold (\<lambda>x m. m(kf x \<mapsto> vf x)) xs m0) = kf ` set xs \<union> dom m0"
  by (induction xs arbitrary: m0) auto

lemma fold_upd_distinct:
  "distinct (map kf xs) \<Longrightarrow> x \<in> set xs \<Longrightarrow>
   fold (\<lambda>x m. m(kf x \<mapsto> vf x)) xs m0 (kf x) = Some (vf x)"
proof (induction xs arbitrary: m0)
  case Nil
  then show ?case by simp
next
  case (Cons z xs)
  show ?case
  proof (cases "x \<in> set xs")
    case True
    with Cons show ?thesis by simp
  next
    case False
    with Cons.prems have x: "x = z" and notin: "kf z \<notin> kf ` set xs" by auto
    have "fold (\<lambda>x m. m(kf x \<mapsto> vf x)) xs (m0(kf z \<mapsto> vf z)) (kf z) = Some (vf z)"
    proof (cases "fold (\<lambda>x m. m(kf x \<mapsto> vf x)) xs (m0(kf z \<mapsto> vf z)) (kf z)")
      case None
      then have "kf z \<notin> dom (fold (\<lambda>x m. m(kf x \<mapsto> vf x)) xs (m0(kf z \<mapsto> vf z)))"
        by (simp add: domIff)
      then show ?thesis by (simp add: fold_upd_dom)
    next
      case (Some v)
      from fold_upd_Some [OF this] notin have "v = vf z"
        by (auto simp: image_iff)
      with Some show ?thesis by simp
    qed
    with x show ?thesis by (simp del: fun_upd_apply)
  qed
qed

subsection \<open>The batch tables\<close>

lemma original_id_to_parent: "original_id (to_parent (i, r)) = ID r"
  by (simp add: to_parent_def)


lemma set_sort_by_id: "set (sort_by_id rs) = set rs"
  by (auto simp: sort_by_id_def)

lemma unique_parents_ids:
  "original_id ` set (make_unique_parents sheets) = ID ` set (combined_df sheets)"
proof -
  have "original_id ` set (make_unique_parents sheets) =
        ID ` snd ` set (enumerate 1 (sort_by_id (drop_duplicates ID (combined_df sheets))))"
    by (force simp: make_unique_parents_def original_id_to_parent image_iff)
  also have "snd ` set (enumerate 1 (sort_by_id (drop_duplicates ID (combined_df sheets)))) =
        set (sort_by_id (drop_duplicates ID (combined_df sheets)))"
    by (metis list.set_map map_snd_enumerate)
  finally show ?thesis
    by (simp add: set_sort_by_id drop_duplicates_keys)
qed

lemma parent_mapping_total:
  assumes "r \<in> set (combined_df sheets)" and "ID r = Some i"
  shows "\<exists>pid. mapping_get (make_parent_mapping (make_unique_parents sheets)) (ID r) = Some pid"
proof -
  have "ID r \<in> dom (make_parent_mapping (make_unique_parents sheets))"
    using assms(1) unique_parents_ids [of sheets]
    by (auto simp: make_parent_mapping_def fold_upd_dom)
  with assms(2) show ?thesis by (auto simp: mapping_get_def)
qed


lemma child_slot_cases:
  "child_slot pid r n = Inr v \<Longrightarrow>
   (\<not> slot_named r n \<and> v = []) \<or>
   (slot_named r n \<and>
    (\<exists>a c. slot_age r n = Inr a \<and> v = [c] \<and> cr_parent_id c = pid \<and> cr_age c = a \<and>
       cr_full_name c = strip (py_str_opt (r (slot_label ''Full Name of Child '' n))) \<and>
       cr_dedupe_key c =
         make_key pid (upper (strip (py_str_opt (r (slot_label ''Full Name of Child '' n))))) a))"
  by (auto simp: child_slot_def slot_named_def Let_def split: if_splits sum.splits)

lemma child_slot_key_ok:
  "child_slot pid r n = Inr v \<Longrightarrow> c \<in> set v \<Longrightarrow>
   cr_dedupe_key c = make_key (cr_parent_id c) (upper (cr_full_name c)) (cr_age c)"
  by (auto dest!: child_slot_cases)

lemma all_children_origin:
  assumes "make_all_children pm sheets = Inr all" and "c \<in> set all"
  shows "\<exists>sheet \<in> set sheets. \<exists>r \<in> set (snd sheet). \<exists>pid n v.
           mapping_get pm (ID r) = Some pid \<and> n \<in> set [1 ..< 4] \<and>
           child_slot pid (cols r) n = Inr v \<and> c \<in> set v"
proof -
  from collect_origin [OF assms [unfolded make_all_children_def]]
  obtain sheet v1 where sh: "sheet \<in> set sheets"
    and c1: "collect (children_of_row pm) (snd sheet) = Inr v1" and m1: "c \<in> set v1"
    by blast
  from collect_origin [OF c1 m1]
  obtain r v2 where r: "r \<in> set (snd sheet)" and c2: "children_of_row pm r = Inr v2"
    and m2: "c \<in> set v2"
    by blast
  from c2 m2 obtain pid where pid: "mapping_get pm (ID r) = Some pid"
    and c3: "collect (child_slot pid (cols r)) [1 ..< 4] = Inr v2"
    by (auto simp: children_of_row_def split: option.splits)
  from collect_origin [OF c3 m2]
  obtain n v where "n \<in> set [1 ..< 4]" "child_slot pid (cols r) n = Inr v" "c \<in> set v"
    by blast
  with sh r pid show ?thesis by blast
qed

lemma all_children_key_ok:
  "make_all_children pm sheets = Inr all \<Longrightarrow> c \<in> set all \<Longrightarrow>
   cr_dedupe_key c = make_key (cr_parent_id c) (upper (cr_full_name c)) (cr_age c)"
  by (blast dest: all_children_origin child_slot_key_ok)

lemma all_children_slot:
  assumes all: "make_all_children pm sheets = Inr all"
    and sh: "sheet \<in> set sheets" and r: "r \<in> set (snd sheet)"
    and pid: "mapping_get pm (ID r) = Some pid" and n: "n \<in> set [1 ..< 4]"
  shows "\<exists>v. child_slot pid (cols r) n = Inr v \<and> set v \<subseteq> set all"
proof -
  from collect_Inr_D [OF all [unfolded make_all_children_def]] sh
  obtain v1 where c1: "collect (children_of_row pm) (snd sheet) = Inr v1" by blast
  from collect_Inr_D [OF c1] r obtain v2 where c2: "children_of_row pm r = Inr v2" by blast
  with pid have c3: "collect (child_slot pid (cols r)) [1 ..< 4] = Inr v2"
    by (simp add: children_of_row_def)
  from collect_Inr_D [OF c3] n obtain v where v: "child_slot pid (cols r) n = Inr v" by blast
  have "set v \<subseteq> set v2" using c3 n v by (rule collect_member)
  also have "set v2 \<subseteq> set v1" using c1 r c2 by (rule collect_member)
  also have "set v1 \<subseteq> set all"
    using all [unfolded make_all_children_def] sh c1 by (rule collect_member)
  finally show ?thesis using v by blast
qed


lemma child_row_key:
  "make_key (ch_parent_id (to_child_row (i, c))) (upper (ch_full_name (to_child_row (i, c))))
     (ch_age (to_child_row (i, c))) =
   make_key (cr_parent_id c) (upper (cr_full_name c)) (cr_age c)"
  by (simp add: to_child_row_def)


lemma children_unique_ids_distinct:
  "make_children_unique all = Inr cu \<Longrightarrow> distinct (map child_id cu)"
proof -
  assume "make_children_unique all = Inr cu"
  then have cu: "cu = map to_child_row (enumerate 1 (drop_duplicates cr_dedupe_key all))"
    by (simp add: make_children_unique_def split: if_splits)
  have "child_id \<circ> to_child_row = fst"
    by (auto simp: to_child_row_def)
  then have "map child_id cu = map fst (enumerate 1 (drop_duplicates cr_dedupe_key all))"
    by (simp only: cu map_map)
  then show ?thesis by (simp only: enumerate_ids_distinct)
qed

lemma child_lookup_Some:
  "make_child_lookup cu k = Some v \<Longrightarrow>
   \<exists>c \<in> set cu. make_key (ch_parent_id c) (upper (ch_full_name c)) (ch_age c) = k \<and> child_id c = v"
  unfolding make_child_lookup_def by (drule fold_upd_Some) auto

lemma child_lookup_inj:
  assumes cu: "make_children_unique all = Inr cu"
    and k1: "make_child_lookup cu k1 = Some v" and k2: "make_child_lookup cu k2 = Some v"
  shows "k1 = k2"
proof -
  from child_lookup_Some [OF k1] obtain c1 where c1: "c1 \<in> set cu"
    "make_key (ch_parent_id c1) (upper (ch_full_name c1)) (ch_age c1) = k1" "child_id c1 = v"
    by blast
  from child_lookup_Some [OF k2] obtain c2 where c2: "c2 \<in> set cu"
    "make_key (ch_parent_id c2) (upper (ch_full_name c2)) (ch_age c2) = k2" "child_id c2 = v"
    by blast
  from children_unique_ids_distinct [OF cu] have "inj_on child_id (set cu)"
    by (simp add: distinct_map)
  with c1 c2 have "c1 = c2" by (auto dest: inj_onD)
  with c1 c2 show ?thesis by simp
qed

lemma child_lookup_dom:
  assumes all: "make_all_children pm sheets = Inr all"
    and cu: "make_children_unique all = Inr cu"
  shows "dom (make_child_lookup cu) = cr_dedupe_key ` set all"
proof -
  from cu have cu': "cu = map to_child_row (enumerate 1 (drop_duplicates cr_dedupe_key all))"
    by (simp add: make_children_unique_def split: if_splits)
  have ok: "make_key (cr_parent_id c) (upper (cr_full_name c)) (cr_age c) = cr_dedupe_key c"
    if "c \<in> set (drop_duplicates cr_dedupe_key all)" for c
    using that drop_duplicates_subset [of cr_dedupe_key all] all_children_key_ok [OF all, of c]
    by auto
  have "dom (make_child_lookup cu) =
        (\<lambda>c. make_key (ch_parent_id c) (upper (ch_full_name c)) (ch_age c)) ` set cu"
    by (simp add: make_child_lookup_def fold_upd_dom)
  also have "\<dots> = (\<lambda>ic. make_key (cr_parent_id (snd ic)) (upper (cr_full_name (snd ic)))
                          (cr_age (snd ic))) `
                    set (enumerate 1 (drop_duplicates cr_dedupe_key all))"
    unfolding cu' by (simp add: image_image to_child_row_def split_beta)
  also have "\<dots> = (\<lambda>c. make_key (cr_parent_id c) (upper (cr_full_name c)) (cr_age c)) `
                    snd ` set (enumerate 1 (drop_duplicates cr_dedupe_key all))"
    by (simp add: image_image)
  also have "snd ` set (enumerate 1 (drop_duplicates cr_dedupe_key all)) =
             set (drop_duplicates cr_dedupe_key all)"
    by (metis list.set_map map_snd_enumerate)
  also have "(\<lambda>c. make_key (cr_parent_id c) (upper (cr_full_name c)) (cr_age c)) `
               set (drop_duplicates cr_dedupe_key all) =
             cr_dedupe_key ` set (drop_duplicates cr_dedupe_key all)"
    using ok by (intro image_cong) auto
  finally show ?thesis by (simp add: drop_duplicates_keys)
qed


subsection \<open>What gates an attendance record\<close>




lemma export_parts:
  assumes "export_to_csv sheets = Inr out"
  shows "\<exists>all cu att.
      make_all_children (make_parent_mapping (make_unique_parents sheets)) sheets = Inr all \<and>
      make_children_unique all = Inr cu \<and>
      make_all_attendance (make_parent_mapping (make_unique_parents sheets))
        (make_child_lookup cu) sheets = Inr att \<and>
      unique_parents out = make_unique_parents sheets \<and> children_unique out = cu \<and>
      attendance_df out = number_attendance att"
  using assms
  by (auto simp: export_to_csv_def Let_def split: if_splits sum.splits)







subsection \<open>Keys of the children table\<close>

lemma child_ids_unique_empty: "child_ids_unique empty_store"
  by (simp add: child_ids_unique_def empty_store_def)

lemma resolve_child_ids_unique:
  "resolve_child s st pid name age g = (cid, s1, st1) \<Longrightarrow> child_ids_unique s \<Longrightarrow>
   child_ids_unique s1"
  by (fastforce simp: resolve_child_def insert_child_def child_ids_unique_def
        split: option.splits)

lemma record_attendance_children:
  "record_attendance s st cid service d = (s1, st1) \<Longrightarrow>
   children s1 = children s \<and> child_id_seq s1 = child_id_seq s \<and> parents s1 = parents s"
  by (auto simp: record_attendance_def insert_attendance_def split: if_splits)

lemma resolve_parent_children:
  "resolve_parent s st name phone g = (pid, s1, st1) \<Longrightarrow>
   children s1 = children s \<and> child_id_seq s1 = child_id_seq s"
  by (auto simp: resolve_parent_def insert_parent_def split: option.splits)

lemma failed_ids_unique: "child_ids_unique (failed s) = child_ids_unique s"
  by (simp add: child_ids_unique_def failed_tables)

lemma process_child_ids_unique:
  assumes "state_of (process_child rejects d r pid n (s, st)) = (s1, st1)"
    and "child_ids_unique s"
  shows "child_ids_unique s1"
proof (cases "process_child rejects d r pid n (s, st)" rule: outcome_cases)
  case (Raised s2 st2)
  with assms(1) have "process_child rejects d r pid n (s, st) = Raised (s1, st1)" by simp
  then show ?thesis
  proof (cases rule: process_child_Raised)
    case child
    with assms(2) show ?thesis by (simp add: failed_ids_unique)
  next
    case (attendance cid sa)
    with resolve_child_ids_unique [OF attendance(3) assms(2)] show ?thesis
      by (simp add: failed_ids_unique)
  qed
next
  case (Done s2 st2)
  with assms(1) have "process_child rejects d r pid n (s, st) = Done (s1, st1)" by simp
  then show ?thesis
  proof (cases rule: process_child_Done)
    case skip
    with assms(2) show ?thesis by simp
  next
    case (recorded cid sa sta)
    from resolve_child_ids_unique [OF recorded(3) assms(2)]
      record_attendance_children [OF recorded(5)]
    show ?thesis by (simp add: child_ids_unique_def)
  qed
qed

lemma run_children_ids_unique:
  assumes "state_of (run_children (process_child rejects d r pid) ns (s, st)) = (s1, st1)"
    and "child_ids_unique s"
  shows "child_ids_unique s1"
proof -
  define R where "R x y \<longleftrightarrow> (child_ids_unique (fst x) \<longrightarrow> child_ids_unique (fst y))"
    for x y :: "'a store \<times> stats"
  have "R (s, st) (state_of (run_children (process_child rejects d r pid) ns (s, st)))"
  proof (rule run_children_rel [where R = R])
    fix n and x :: "'a store \<times> stats"
    obtain sx stx where x: "x = (sx, stx)" by (cases x)
    obtain sy sty where y: "state_of (process_child rejects d r pid n (sx, stx)) = (sy, sty)"
      by (cases "state_of (process_child rejects d r pid n (sx, stx))")
    from process_child_ids_unique [OF y]
    show "R x (state_of (process_child rejects d r pid n x))"
      by (auto simp: R_def x y)
  qed (auto simp: R_def)
  with assms show ?thesis by (simp add: R_def)
qed

lemma process_row_ids_unique:
  assumes "process_row rejects to_date today r (s, st) = (s1, st1)" and "child_ids_unique s"
  shows "child_ids_unique s1"
  using assms(1)
proof (cases rule: process_row_cases)
  case invalid
  with assms(2) show ?thesis by simp
next
  case no_date
  with assms(2) show ?thesis by simp
next
  case (parent d)
  with assms(2) show ?thesis by (simp add: failed_ids_unique)
next
  case (raised d pid sa sta st2)
  from resolve_parent_children [OF raised(5)] assms(2) have u: "child_ids_unique sa"
    by (simp add: child_ids_unique_def)
  from raised(6)
  have "state_of (run_children (process_child rejects d r pid) [1 ..< 4] (sa, sta)) = (s1, st2)"
    by simp
  from this u show ?thesis by (rule run_children_ids_unique)
next
  case (completed d pid sa sta)
  from resolve_parent_children [OF completed(5)] assms(2) have u: "child_ids_unique sa"
    by (simp add: child_ids_unique_def)
  from completed(6)
  have "state_of (run_children (process_child rejects d r pid) [1 ..< 4] (sa, sta)) = (s1, st1)"
    by simp
  from this u show ?thesis by (rule run_children_ids_unique)
qed

lemma fold_process_row_ids_unique:
  "fold (process_row rejects to_date today) df (s, st) = (s1, st1) \<Longrightarrow> child_ids_unique s \<Longrightarrow>
   child_ids_unique s1"
proof (induction df arbitrary: s st)
  case Nil
  then show ?case by simp
next
  case (Cons r df)
  obtain sa sta where a: "process_row rejects to_date today r (s, st) = (sa, sta)"
    by (cases "process_row rejects to_date today r (s, st)")
  with Cons.prems have rest: "fold (process_row rejects to_date today) df (sa, sta) = (s1, st1)"
    by simp
  from process_row_ids_unique [OF a Cons.prems(2)] show ?case
    by (rule Cons.IH [OF rest])
qed

lemma find_Some_D: "find P xs = Some x \<Longrightarrow> x \<in> set xs \<and> P x"
  by (induction xs) (auto split: if_splits)

lemma select_child_row:
  "select_child s pid name age = Some cid \<Longrightarrow>
   \<exists>c \<in> set (children s). c_child_id c = cid \<and> c_age c = age"
  by (auto simp: select_child_def dest: find_Some_D)

lemma select_child_ages_differ:
  assumes ok: "child_ids_unique s"
    and c1: "select_child s pid1 name1 a1 = Some cid1"
    and c2: "select_child s pid2 name2 a2 = Some cid2"
    and ne: "a1 \<noteq> a2"
  shows "cid1 \<noteq> cid2"
proof
  assume eq: "cid1 = cid2"
  from select_child_row [OF c1] obtain x where x: "x \<in> set (children s)" "c_child_id x = cid1"
    "c_age x = a1" by blast
  from select_child_row [OF c2] obtain y where y: "y \<in> set (children s)" "c_child_id y = cid2"
    "c_age y = a2" by blast
  from ok have "inj_on c_child_id (set (children s))"
    by (simp add: child_ids_unique_def distinct_map)
  with x y eq have "x = y" by (auto dest: inj_onD)
  with x y ne show False by simp
qed

lemma resolve_parent_stable:
  assumes a: "resolve_parent s st name1 phone g1 = (pid1, s1, st1)"
    and run: "fold (process_row rejects to_date today) df (s1, st1) = (s2, st2)"
  shows "fst (resolve_parent s2 st2' name2 phone g2) = pid1"
proof -
  from resolve_parent_selects [OF a] fold_process_row_extends [OF run]
  have "select_parent s2 phone = Some pid1" by (rule select_parent_extends)
  then show ?thesis by (simp add: resolve_parent_again)
qed

lemma select_child_upper:
  "upper name1 = upper name2 \<Longrightarrow> select_child s pid name1 age = select_child s pid name2 age"
  by (simp add: select_child_def)

lemma resolve_child_stable:
  assumes a: "resolve_child s st pid name1 age g1 = (cid1, s1, st1)"
    and run: "fold (process_row rejects to_date today) df (s1, st1) = (s2, st2)"
    and up: "upper name1 = upper name2"
  shows "fst (resolve_child s2 st2' pid name2 age g2) = cid1"
proof -
  from resolve_child_selects [OF a] fold_process_row_extends [OF run]
  have "select_child s2 pid name1 age = Some cid1" by (rule select_child_extends)
  moreover have "select_child s2 pid name2 age = select_child s2 pid name1 age"
    by (rule select_child_upper [OF up, symmetric])
  ultimately have "select_child s2 pid name2 age = Some cid1" by simp
  then show ?thesis by (simp add: resolve_child_again)
qed

lemma resolve_child_age_sensitive:
  assumes ok: "child_ids_unique s"
    and a: "resolve_child s st pid name a1 g1 = (cid1, s1, st1)"
    and run: "fold (process_row rejects to_date today) df (s1, st1) = (s2, st2)"
    and ne: "a1 \<noteq> a2"
  shows "fst (resolve_child s2 st2' pid name a2 g2) \<noteq> cid1"
proof -
  obtain cid2 s3 st3 where b: "resolve_child s2 st2' pid name a2 g2 = (cid2, s3, st3)"
    by (cases "resolve_child s2 st2' pid name a2 g2") auto
  have ok3: "child_ids_unique s3"
    using b fold_process_row_ids_unique [OF run resolve_child_ids_unique [OF a ok]]
    by (rule resolve_child_ids_unique)
  have "extends s1 s3"
    using fold_process_row_extends [OF run] resolve_child_extends [OF b] by (rule extends_trans)
  with resolve_child_selects [OF a] have "select_child s3 pid name a1 = Some cid1"
    by (rule select_child_extends)
  from select_child_ages_differ [OF ok3 this resolve_child_selects [OF b] ne] b
  show ?thesis by auto
qed

subsection \<open>Keys of the batch tables\<close>

lemma combined_df_member:
  "r \<in> set (combined_df sheets) \<Longrightarrow> \<exists>sheet \<in> set sheets. r \<in> set (snd sheet)"
  by (auto simp: combined_df_def)

lemma slot_child_id_Some:
  assumes all: "make_all_children pm sheets = Inr all"
    and cu: "make_children_unique all = Inr cu"
    and r: "r \<in> set (combined_df sheets)"
    and pid: "mapping_get pm (ID r) = Some pid" and n: "n \<in> set [1 ..< 4]"
    and named: "slot_named (cols r) n"
  shows "\<exists>a cid. slot_age (cols r) n = Inr a \<and>
           slot_child_id (make_child_lookup cu) pid (cols r) n = Some cid \<and>
           make_child_lookup cu
             (make_key pid
                (upper (strip (py_str_opt (cols r (slot_label ''Full Name of Child '' n))))) a)
           = Some cid"
proof -
  from combined_df_member [OF r] obtain sheet where sh: "sheet \<in> set sheets"
    and rs: "r \<in> set (snd sheet)" by blast
  from all_children_slot [OF all sh rs pid n]
  obtain v where v: "child_slot pid (cols r) n = Inr v" and sub: "set v \<subseteq> set all" by blast
  with child_slot_cases [OF v] named obtain a c where a: "slot_age (cols r) n = Inr a"
    and c: "v = [c]"
    and key: "cr_dedupe_key c =
       make_key pid (upper (strip (py_str_opt (cols r (slot_label ''Full Name of Child '' n))))) a"
    by auto
  from c sub have "cr_dedupe_key c \<in> dom (make_child_lookup cu)"
    by (simp add: child_lookup_dom [OF all cu])
  with key obtain cid where
    "make_child_lookup cu
       (make_key pid (upper (strip (py_str_opt (cols r (slot_label ''Full Name of Child '' n))))) a)
     = Some cid"
    by auto
  with named a show ?thesis by (simp add: slot_child_id_def)
qed

lemma batch_child_same:
  assumes all: "make_all_children pm sheets = Inr all"
    and cu: "make_children_unique all = Inr cu"
    and r1: "r1 \<in> set (combined_df sheets)" and r2: "r2 \<in> set (combined_df sheets)"
    and p1: "mapping_get pm (ID r1) = Some pid" and p2: "mapping_get pm (ID r2) = Some pid"
    and n1: "n1 \<in> set [1 ..< 4]" and n2: "n2 \<in> set [1 ..< 4]"
    and named1: "slot_named (cols r1) n1" and named2: "slot_named (cols r2) n2"
    and names: "upper (strip (py_str_opt (cols r1 (slot_label ''Full Name of Child '' n1)))) =
                upper (strip (py_str_opt (cols r2 (slot_label ''Full Name of Child '' n2))))"
    and ages: "slot_age (cols r1) n1 = slot_age (cols r2) n2"
  shows "\<exists>cid. slot_child_id (make_child_lookup cu) pid (cols r1) n1 = Some cid \<and>
               slot_child_id (make_child_lookup cu) pid (cols r2) n2 = Some cid"
proof -
  from slot_child_id_Some [OF all cu r1 p1 n1 named1] obtain a cid
    where a: "slot_age (cols r1) n1 = Inr a"
      and c1: "slot_child_id (make_child_lookup cu) pid (cols r1) n1 = Some cid"
      and l1: "make_child_lookup cu
             (make_key pid
                (upper (strip (py_str_opt (cols r1 (slot_label ''Full Name of Child '' n1))))) a)
           = Some cid"
    by blast
  from named2 a ages names l1
  have "slot_child_id (make_child_lookup cu) pid (cols r2) n2 = Some cid"
    by (simp add: slot_child_id_def)
  with c1 show ?thesis by blast
qed

lemma batch_child_age_sensitive:
  assumes all: "make_all_children pm sheets = Inr all"
    and cu: "make_children_unique all = Inr cu"
    and r1: "r1 \<in> set (combined_df sheets)" and r2: "r2 \<in> set (combined_df sheets)"
    and p1: "mapping_get pm (ID r1) = Some pid" and p2: "mapping_get pm (ID r2) = Some pid"
    and n1: "n1 \<in> set [1 ..< 4]" and n2: "n2 \<in> set [1 ..< 4]"
    and named1: "slot_named (cols r1) n1" and named2: "slot_named (cols r2) n2"
    and names: "upper (strip (py_str_opt (cols r1 (slot_label ''Full Name of Child '' n1)))) =
                upper (strip (py_str_opt (cols r2 (slot_label ''Full Name of Child '' n2))))"
    and ages: "slot_age (cols r1) n1 \<noteq> slot_age (cols r2) n2"
  shows "\<exists>cid1 cid2. slot_child_id (make_child_lookup cu) pid (cols r1) n1 = Some cid1 \<and>
               slot_child_id (make_child_lookup cu) pid (cols r2) n2 = Some cid2 \<and> cid1 \<noteq> cid2"
proof -
  from slot_child_id_Some [OF all cu r1 p1 n1 named1] obtain a1 cid1
    where a1: "slot_age (cols r1) n1 = Inr a1"
      and c1: "slot_child_id (make_child_lookup cu) pid (cols r1) n1 = Some cid1"
      and l1: "make_child_lookup cu
             (make_key pid
                (upper (strip (py_str_opt (cols r1 (slot_label ''Full Name of Child '' n1))))) a1)
           = Some cid1"
    by blast
  from slot_child_id_Some [OF all cu r2 p2 n2 named2] obtain a2 cid2
    where a2: "slot_age (cols r2) n2 = Inr a2"
      and c2: "slot_child_id (make_child_lookup cu) pid (cols r2) n2 = Some cid2"
      and l2: "make_child_lookup cu
             (make_key pid
                (upper (strip (py_str_opt (cols r2 (slot_label ''Full Name of Child '' n2))))) a2)
           = Some cid2"
    by blast
  have "cid1 \<noteq> cid2"
  proof
    assume "cid1 = cid2"
    with l1 l2 child_lookup_inj [OF cu] names
    have "make_key pid
            (upper (strip (py_str_opt (cols r2 (slot_label ''Full Name of Child '' n2))))) a1 =
          make_key pid
            (upper (strip (py_str_opt (cols r2 (slot_label ''Full Name of Child '' n2))))) a2"
      by metis
    then have "a1 = a2" by (rule make_key_age_inj)
    with a1 a2 ages show False by simp
  qed
  with c1 c2 show ?thesis by blast
qed

lemma batch_parent_same:
  assumes "r1 \<in> set (combined_df sheets)" and "ID r1 = ID r2" and "ID r1 \<noteq> None"
  shows "\<exists>pid. mapping_get (make_parent_mapping (make_unique_parents sheets)) (ID r1) = Some pid \<and>
               mapping_get (make_parent_mapping (make_unique_parents sheets)) (ID r2) = Some pid"
  using assms parent_mapping_total [of r1 sheets] by auto

subsection \<open>Key stability and age sensitivity\<close>

text \<open>
  C8. In both modes two rows with the same parent identity key resolve to the same
  \<^verbatim>\<open>parent_id\<close>; two child slots under one parent whose names differ only in case or in
  surrounding whitespace and whose ages are equal resolve to the same \<^verbatim>\<open>child_id\<close>; two such
  slots whose ages differ resolve to two distinct ids. For the incremental load the two
  sightings may be separated by any run of rows, and distinct ids need \<^verbatim>\<open>child_id\<close> to be a
  key of the children table, which every store grown from the empty one satisfies. For
  the batch script the sightings are rows and slots of the workbook of a completed export.
\<close>

theorem key_stability:
  "(resolve_parent s st name1 phone g1 = (pid1, s1, st1) \<and>
    fold (process_row rejects to_date today) df (s1, st1) = (s2, st2) \<longrightarrow>
      fst (resolve_parent s2 st3 name2 phone g2) = pid1) \<and>
   (resolve_child s st pid (strip raw1) age g1 = (cid1, t1, tt1) \<and>
    fold (process_row rejects to_date today) df (t1, tt1) = (t2, tt2) \<longrightarrow>
      (upper (strip raw1) = upper (strip raw2) \<longrightarrow>
         fst (resolve_child t2 st3 pid (strip raw2) age g2) = cid1) \<and>
      (child_ids_unique s \<and> age \<noteq> age2 \<longrightarrow>
         fst (resolve_child t2 st3 pid (strip raw1) age2 g2) \<noteq> cid1)) \<and>
   (export_to_csv sheets = Inr out \<and> r1 \<in> set (combined_df sheets) \<and>
    r2 \<in> set (combined_df sheets) \<and> ID r1 = ID r2 \<and> ID r1 \<noteq> None \<longrightarrow>
      (\<exists>p. mapping_get (make_parent_mapping (unique_parents out)) (ID r1) = Some p \<and>
           mapping_get (make_parent_mapping (unique_parents out)) (ID r2) = Some p)) \<and>
   (export_to_csv sheets = Inr out \<and> r1 \<in> set (combined_df sheets) \<and>
    r2 \<in> set (combined_df sheets) \<and>
    mapping_get (make_parent_mapping (unique_parents out)) (ID r1) = Some p \<and>
    mapping_get (make_parent_mapping (unique_parents out)) (ID r2) = Some p \<and>
    n1 \<in> set [1 ..< 4] \<and> n2 \<in> set [1 ..< 4] \<and>
    slot_named (cols r1) n1 \<and> slot_named (cols r2) n2 \<and>
    upper (strip (py_str_opt (cols r1 (slot_label ''Full Name of Child '' n1)))) =
      upper (strip (py_str_opt (cols r2 (slot_label ''Full Name of Child '' n2)))) \<longrightarrow>
      (slot_age (cols r1) n1 = slot_age (cols r2) n2 \<longrightarrow>
         (\<exists>c. slot_child_id (make_child_lookup (children_unique out)) p (cols r1) n1 = Some c \<and>
              slot_child_id (make_child_lookup (children_unique out)) p (cols r2) n2 = Some c)) \<and>
      (slot_age (cols r1) n1 \<noteq> slot_age (cols r2) n2 \<longrightarrow>
         (\<exists>c1 c2. slot_child_id (make_child_lookup (children_unique out)) p (cols r1) n1 = Some c1 \<and>
              slot_child_id (make_child_lookup (children_unique out)) p (cols r2) n2 = Some c2 \<and>
              c1 \<noteq> c2)))"
proof (intro conjI impI; (elim conjE)?)
  assume "resolve_parent s st name1 phone g1 = (pid1, s1, st1)"
    and "fold (process_row rejects to_date today) df (s1, st1) = (s2, st2)"
  then show "fst (resolve_parent s2 st3 name2 phone g2) = pid1"
    by (rule resolve_parent_stable)
next
  assume "resolve_child s st pid (strip raw1) age g1 = (cid1, t1, tt1)"
    and "fold (process_row rejects to_date today) df (t1, tt1) = (t2, tt2)"
    and "upper (strip raw1) = upper (strip raw2)"
  then show "fst (resolve_child t2 st3 pid (strip raw2) age g2) = cid1"
    by (rule resolve_child_stable)
next
  assume "resolve_child s st pid (strip raw1) age g1 = (cid1, t1, tt1)"
    and "fold (process_row rejects to_date today) df (t1, tt1) = (t2, tt2)"
    and "child_ids_unique s" and "age \<noteq> age2"
  then show "fst (resolve_child t2 st3 pid (strip raw1) age2 g2) \<noteq> cid1"
    by (intro resolve_child_age_sensitive)
next
  assume out: "export_to_csv sheets = Inr out"
    and "r1 \<in> set (combined_df sheets)" "ID r1 = ID r2" "ID r1 \<noteq> None"
  then show "\<exists>p. mapping_get (make_parent_mapping (unique_parents out)) (ID r1) = Some p \<and>
      mapping_get (make_parent_mapping (unique_parents out)) (ID r2) = Some p"
    using export_parts [OF out] batch_parent_same [of r1 sheets r2] by auto
next
  assume out: "export_to_csv sheets = Inr out"
    and r: "r1 \<in> set (combined_df sheets)" "r2 \<in> set (combined_df sheets)"
    and p: "mapping_get (make_parent_mapping (unique_parents out)) (ID r1) = Some p"
      "mapping_get (make_parent_mapping (unique_parents out)) (ID r2) = Some p"
    and n: "n1 \<in> set [1 ..< 4]" "n2 \<in> set [1 ..< 4]"
    and named: "slot_named (cols r1) n1" "slot_named (cols r2) n2"
    and names: "upper (strip (py_str_opt (cols r1 (slot_label ''Full Name of Child '' n1)))) =
      upper (strip (py_str_opt (cols r2 (slot_label ''Full Name of Child '' n2))))"
    and ages: "slot_age (cols r1) n1 = slot_age (cols r2) n2"
  from export_parts [OF out] obtain all where
    all: "make_all_children (make_parent_mapping (make_unique_parents sheets)) sheets = Inr all"
    and cu: "make_children_unique all = Inr (children_unique out)"
    and ups: "unique_parents out = make_unique_parents sheets"
    by auto
  show "\<exists>c. slot_child_id (make_child_lookup (children_unique out)) p (cols r1) n1 = Some c \<and>
      slot_child_id (make_child_lookup (children_unique out)) p (cols r2) n2 = Some c"
    using all cu r p [unfolded ups] n named names ages by (rule batch_child_same)
next
  assume out: "export_to_csv sheets = Inr out"
    and r: "r1 \<in> set (combined_df sheets)" "r2 \<in> set (combined_df sheets)"
    and p: "mapping_get (make_parent_mapping (unique_parents out)) (ID r1) = Some p"
      "mapping_get (make_parent_mapping (unique_parents out)) (ID r2) = Some p"
    and n: "n1 \<in> set [1 ..< 4]" "n2 \<in> set [1 ..< 4]"
    and named: "slot_named (cols r1) n1" "slot_named (cols r2) n2"
    and names: "upper (strip (py_str_opt (cols r1 (slot_label ''Full Name of Child '' n1)))) =
      upper (strip (py_str_opt (cols r2 (slot_label ''Full Name of Child '' n2))))"
    and ages: "slot_age (cols r1) n1 \<noteq> slot_age (cols r2) n2"
  from export_parts [OF out] obtain all where
    all: "make_all_children (make_parent_mapping (make_unique_parents sheets)) sheets = Inr all"
    and cu: "make_children_unique all = Inr (children_unique out)"
    and ups: "unique_parents out = make_unique_parents sheets"
    by auto
  show "\<exists>c1 c2. slot_child_id (make_child_lookup (children_unique out)) p (cols r1) n1 = Some c1 \<and>
      slot_child_id (make_child_lookup (children_unique out)) p (cols r2) n2 = Some c2 \<and> c1 \<noteq> c2"
    using all cu r p [unfolded ups] n named names ages by (rule batch_child_age_sensitive)
qed

theorem key_stability_witness:
  "fst (resolve_parent
          (fst (fold (process_row ex_rejects ex_to_date ex_today) [ex_submission] (snd ex_first_parent)))
          (init_stats []) ''A. Obi'' ''08012345678'' ''Male'') = fst ex_first_parent \<and>
   fst (resolve_child
          (fst (fold (process_row ex_rejects ex_to_date ex_today) [ex_submission] (snd ex_first_child)))
          (init_stats []) 1 (strip ''JANE DOE  '') 8 ''Male'') = fst ex_first_child \<and>
   fst (resolve_child
          (fst (fold (process_row ex_rejects ex_to_date ex_today) [ex_submission] (snd ex_first_child)))
          (init_stats []) 1 (strip '' Jane Doe'') 9 ''Male'') \<noteq> fst ex_first_child \<and>
   (\<exists>out p c c3.
      export_to_csv ex_workbook = Inr out \<and>
      mapping_get (make_parent_mapping (unique_parents out)) (Some 7) = Some p \<and>
      slot_child_id (make_child_lookup (children_unique out)) p ex_jane 1 = Some c \<and>
      slot_child_id (make_child_lookup (children_unique out)) p
        (ex_jane(''Full Name of Child 1'' \<mapsto> Str '' jane DOE '')) 1 = Some c \<and>
      slot_child_id (make_child_lookup (children_unique out)) p
        (ex_jane(''Age of Child 1'' \<mapsto> Num 9)) 1 = Some c3 \<and>
      c \<noteq> c3)"
proof -
  let ?P = "process_row ex_rejects ex_to_date ex_today"
  let ?r1 = "ex_family (Some 7) ex_jane"
  let ?r2 = "ex_family (Some 7) (ex_jane(''Full Name of Child 1'' \<mapsto> Str '' jane DOE ''))"
  let ?r3 = "ex_family (Some 7) (ex_jane(''Age of Child 1'' \<mapsto> Num 9))"
  have up: "upper (strip '' Jane Doe'') = upper (strip ''JANE DOE  '')" by code_simp
  have e: "case export_to_csv ex_workbook of Inl e \<Rightarrow> False | Inr out \<Rightarrow> True" by code_simp
  then obtain out where out: "export_to_csv ex_workbook = Inr out"
    by (cases "export_to_csv ex_workbook") auto
  have mem: "?r1 \<in> set (combined_df ex_workbook)" "?r2 \<in> set (combined_df ex_workbook)"
    "?r3 \<in> set (combined_df ex_workbook)"
    by (simp_all add: combined_df_def ex_workbook_def)
  have ids: "ID ?r1 = Some 7" "ID ?r2 = Some 7" "ID ?r3 = Some 7"
    "cols ?r1 = ex_jane"
    "cols ?r2 = ex_jane(''Full Name of Child 1'' \<mapsto> Str '' jane DOE '')"
    "cols ?r3 = ex_jane(''Age of Child 1'' \<mapsto> Num 9)"
    by (simp_all add: ex_family_def)
  have named: "slot_named ex_jane 1"
    "slot_named (ex_jane(''Full Name of Child 1'' \<mapsto> Str '' jane DOE '')) 1"
    "slot_named (ex_jane(''Age of Child 1'' \<mapsto> Num 9)) 1"
    by code_simp+
  have names: "upper (strip (py_str_opt (ex_jane (slot_label ''Full Name of Child '' 1)))) =
      upper (strip (py_str_opt
        ((ex_jane(''Full Name of Child 1'' \<mapsto> Str '' jane DOE ''))
           (slot_label ''Full Name of Child '' 1))))"
    "upper (strip (py_str_opt (ex_jane (slot_label ''Full Name of Child '' 1)))) =
      upper (strip (py_str_opt
        ((ex_jane(''Age of Child 1'' \<mapsto> Num 9)) (slot_label ''Full Name of Child '' 1))))"
    by code_simp+
  have ages: "slot_age ex_jane 1 =
      slot_age (ex_jane(''Full Name of Child 1'' \<mapsto> Str '' jane DOE '')) 1"
    "slot_age ex_jane 1 \<noteq> slot_age (ex_jane(''Age of Child 1'' \<mapsto> Num 9)) 1"
    by code_simp+
  note inc = key_stability [where s = "empty_store :: string store" and st = "init_stats []"
      and ?name1.0 = "''Ada Obi''" and phone = "''08012345678''" and ?g1.0 = "''Female''"
      and ?pid1.0 = "fst ex_first_parent" and ?s1.0 = "fst (snd ex_first_parent)"
      and ?st1.0 = "snd (snd ex_first_parent)" and rejects = ex_rejects
      and to_date = ex_to_date and today = ex_today
      and df = "[ex_submission]"
      and ?s2.0 = "fst (fold ?P [ex_submission] (snd ex_first_parent))"
      and ?st2.0 = "snd (fold ?P [ex_submission] (snd ex_first_parent))"
      and ?st3.0 = "init_stats []" and ?name2.0 = "''A. Obi''" and ?g2.0 = "''Male''"
      and pid = 1 and ?raw1.0 = "'' Jane Doe''" and age = 8
      and ?cid1.0 = "fst ex_first_child" and ?t1.0 = "fst (snd ex_first_child)"
      and ?tt1.0 = "snd (snd ex_first_child)"
      and ?t2.0 = "fst (fold ?P [ex_submission] (snd ex_first_child))"
      and ?tt2.0 = "snd (fold ?P [ex_submission] (snd ex_first_child))"
      and ?raw2.0 = "''JANE DOE  ''" and ?age2.0 = 9
      and sheets = ex_workbook and out = out and ?r1.0 = ?r1 and ?r2.0 = ?r2
      and ?n1.0 = 1 and ?n2.0 = 1]
  from inc [THEN conjunct1]
  have a: "fst (resolve_parent (fst (fold ?P [ex_submission] (snd ex_first_parent)))
          (init_stats []) ''A. Obi'' ''08012345678'' ''Male'') = fst ex_first_parent"
    by (simp add: ex_first_parent_def)
  have ok: "child_ids_unique (empty_store :: string store)" by (rule child_ids_unique_empty)
  from inc [THEN conjunct2, THEN conjunct1] up ok
  have b: "fst (resolve_child (fst (fold ?P [ex_submission] (snd ex_first_child)))
          (init_stats []) 1 (strip ''JANE DOE  '') 8 ''Male'') = fst ex_first_child"
    and c: "fst (resolve_child (fst (fold ?P [ex_submission] (snd ex_first_child)))
          (init_stats []) 1 (strip '' Jane Doe'') 9 ''Male'') \<noteq> fst ex_first_child"
    by (simp_all add: ex_first_child_def)
  from inc [THEN conjunct2, THEN conjunct2, THEN conjunct1] out mem ids
  obtain p where p: "mapping_get (make_parent_mapping (unique_parents out)) (Some 7) = Some p"
    by auto
  from inc [THEN conjunct2, THEN conjunct2, THEN conjunct2, of p] out mem ids p named names ages
  obtain c1 where c1: "slot_child_id (make_child_lookup (children_unique out)) p ex_jane 1 = Some c1"
    "slot_child_id (make_child_lookup (children_unique out)) p
        (ex_jane(''Full Name of Child 1'' \<mapsto> Str '' jane DOE '')) 1 = Some c1"
    by auto
  from key_stability [where sheets = ex_workbook and out = out and ?r1.0 = ?r1 and ?r2.0 = ?r3
      and ?n1.0 = 1 and ?n2.0 = 1 and p = p and s = "empty_store :: string store",
      THEN conjunct2, THEN conjunct2, THEN conjunct2]
    out mem ids p named names ages
  obtain c2 c3 where c3: "slot_child_id (make_child_lookup (children_unique out)) p ex_jane 1 = Some c2"
    "slot_child_id (make_child_lookup (children_unique out)) p
        (ex_jane(''Age of Child 1'' \<mapsto> Num 9)) 1 = Some c3" "c2 \<noteq> c3"
    by auto
  from c1 c3 have "c1 \<noteq> c3" by simp
  with a b c out p c1 c3 show ?thesis by blast
qed

subsection \<open>First sighting wins\<close>
















end
